theory Spec2Isabelle
  imports Complex_Main "HOL-Library.AList" "HOL-Library.Sublist"
begin

section \<open>Strings\<close>

text \<open>
  A JavaScript string is modelled as a \<^typ>\<open>string\<close>, one \<^typ>\<open>char\<close> per code unit; the
  model therefore covers texts whose code units are below 256.  The white space of
  \<^verbatim>\<open>trim\<close>, \<^verbatim>\<open>\s\<close> and \<^verbatim>\<open>\S\<close> in that range is TAB, LF, VT, FF, CR, SPACE and NBSP.
\<close>

definition isSpace :: "char \<Rightarrow> bool" where
  "isSpace c = (c \<in> set [CHR 0x09, CHR 0x0A, CHR 0x0B, CHR 0x0C, CHR 0x0D, CHR 0x20, CHR 0xA0])"

definition trim :: "string \<Rightarrow> string" where
  "trim s = rev (dropWhile isSpace (rev (dropWhile isSpace s)))"

text \<open>\<^verbatim>\<open>s.startsWith(p)\<close> and \<^verbatim>\<open>s.includes(p)\<close>.\<close>

definition startsWith :: "string \<Rightarrow> string \<Rightarrow> bool" where
  "startsWith s p = (take (length p) s = p)"

fun includes_str :: "string \<Rightarrow> string \<Rightarrow> bool" where
  "includes_str [] p = (p = [])"
| "includes_str (c # s) p = (startsWith (c # s) p \<or> includes_str s p)"

text \<open>\<^verbatim>\<open>text.split('\n')\<close>: the pieces between line feeds, at least one piece.\<close>

fun split_lines :: "string \<Rightarrow> string list" where
  "split_lines [] = [[]]"
| "split_lines (c # cs) =
     (if c = CHR 0x0A then [] # split_lines cs
      else (case split_lines cs of
              [] \<Rightarrow> [[c]]
            | l # ls \<Rightarrow> (c # l) # ls))"

text \<open>\<^verbatim>\<open>parts.join(sep)\<close>.\<close>

fun join :: "string \<Rightarrow> string list \<Rightarrow> string" where
  "join sep [] = []"
| "join sep [x] = x"
| "join sep (x # y # ys) = x @ sep @ join sep (y # ys)"

definition isDigit :: "char \<Rightarrow> bool" where
  "isDigit c = (c \<in> set ''0123456789'')"

text \<open>The character class \<^verbatim>\<open>[\d.]\<close> and the regular expression's \<^verbatim>\<open>.\<close>
  (anything but a line terminator).\<close>

definition isNumCh :: "char \<Rightarrow> bool" where
  "isNumCh c = (isDigit c \<or> c = CHR ''.'')"

definition isAnyCh :: "char \<Rightarrow> bool" where
  "isAnyCh c = (c \<noteq> CHR 0x0A \<and> c \<noteq> CHR 0x0D)"

definition backslash :: char where
  "backslash = CHR 0x5C"

definition dquote :: char where
  "dquote = CHR 0x22"

text \<open>Decimal digits of a natural number, as template literals and \<^verbatim>\<open>String(n)\<close> print it.\<close>

definition digitChar :: "nat \<Rightarrow> char" where
  "digitChar d = ''0123456789'' ! d"

fun natToString :: "nat \<Rightarrow> string" where
  "natToString n =
     (if n < 10 then [digitChar n] else natToString (n div 10) @ [digitChar (n mod 10)])"

declare natToString.simps [simp del]

definition digitVal :: "char \<Rightarrow> nat" where
  "digitVal c = of_char c - 48"

text \<open>The value of a string of decimal digits, most significant first.\<close>

definition digitsVal :: "string \<Rightarrow> nat" where
  "digitsVal ds = foldl (\<lambda>acc c. 10 * acc + digitVal c) 0 ds"

section \<open>Numbers\<close>

text \<open>
  A JavaScript number is a binary64 value: a finite double, an infinity or NaN.  A finite
  double is kept as the rational it denotes, and every arithmetic result is rounded to the
  nearest double, the one with the even significand of two equally near ones
  (\<open>toDouble\<close>), and overflows to an infinity (\<open>mk\<close>).  The two zeros are one
  value: the program never divides by a number and never prints a zero result of a
  negative operand.
\<close>

datatype jsnum = Fin rat | PInf | NInf | NaN

text \<open>The length of the binary numeral of \<open>n\<close>.\<close>

fun bits :: "nat \<Rightarrow> nat" where
  "bits n = (if n = 0 then 0 else Suc (bits (n div 2)))"

declare bits.simps [simp del]

definition pow2 :: "int \<Rightarrow> rat" where
  "pow2 k = (if 0 \<le> k then 2 ^ nat k else 1 / 2 ^ nat (- k))"

text \<open>The binary exponent of a positive rational: \<open>pow2 (expo q) \<le> q < pow2 (expo q + 1)\<close>.\<close>

definition expo :: "rat \<Rightarrow> int" where
  "expo q = (if 1 \<le> q then int (bits (nat \<lfloor>q\<rfloor>)) - 1
             else - int (bits (nat \<lceil>1 / q\<rceil> - 1)))"

text \<open>The nearest integer, the even one of two equally near ones.\<close>

definition roundHalfEven :: "rat \<Rightarrow> int" where
  "roundHalfEven x =
     (let f = \<lfloor>x\<rfloor>; d = x - of_int f
      in if d < 1 / 2 then f else if 1 / 2 < d then f + 1 else if even f then f else f + 1)"

text \<open>
  Rounding of a positive rational to 53 significant bits; below \<open>2^-1022\<close> the spacing
  stays that of the subnormal numbers, \<open>2^-1074\<close>.  The exponent is not bounded above
  here: \<open>mk\<close> turns a result from \<open>2^1024\<close> on into an infinity.
\<close>

definition roundPos :: "rat \<Rightarrow> rat" where
  "roundPos q = (let u = pow2 (max (expo q) (- 1022) - 52)
                 in of_int (roundHalfEven (q / u)) * u)"

definition toDouble :: "rat \<Rightarrow> rat" where
  "toDouble q = (if q = 0 then 0 else if 0 < q then roundPos q else - roundPos (- q))"

definition overflow_bound :: rat where
  "overflow_bound = 2 ^ 1024"

text \<open>The number value of an exact result.\<close>

definition mk :: "rat \<Rightarrow> jsnum" where
  "mk q = (let r = toDouble q
           in if overflow_bound \<le> r then PInf
              else if r \<le> - overflow_bound then NInf
              else Fin r)"

fun jadd :: "jsnum \<Rightarrow> jsnum \<Rightarrow> jsnum" where
  "jadd (Fin a) (Fin b) = mk (a + b)"
| "jadd NaN _ = NaN"
| "jadd _ NaN = NaN"
| "jadd PInf NInf = NaN"
| "jadd NInf PInf = NaN"
| "jadd PInf _ = PInf"
| "jadd _ PInf = PInf"
| "jadd NInf _ = NInf"
| "jadd _ NInf = NInf"

fun jneg :: "jsnum \<Rightarrow> jsnum" where
  "jneg (Fin a) = Fin (- a)"
| "jneg PInf = NInf"
| "jneg NInf = PInf"
| "jneg NaN = NaN"

definition jsub :: "jsnum \<Rightarrow> jsnum \<Rightarrow> jsnum" where
  "jsub a b = jadd a (jneg b)"

text \<open>\<^verbatim>\<open>a < b\<close>; every comparison with NaN is false.\<close>

fun jlt :: "jsnum \<Rightarrow> jsnum \<Rightarrow> bool" where
  "jlt NaN _ = False"
| "jlt _ NaN = False"
| "jlt (Fin a) (Fin b) = (a < b)"
| "jlt PInf _ = False"
| "jlt _ PInf = True"
| "jlt _ NInf = False"
| "jlt NInf _ = True"

text \<open>\<^verbatim>\<open>a > b\<close>, \<^verbatim>\<open>a >= b\<close>, \<^verbatim>\<open>a <= b\<close> and \<^verbatim>\<open>a === b\<close> on numbers.\<close>

definition jgt :: "jsnum \<Rightarrow> jsnum \<Rightarrow> bool" where
  "jgt a b = jlt b a"

definition jge :: "jsnum \<Rightarrow> jsnum \<Rightarrow> bool" where
  "jge a b = (a \<noteq> NaN \<and> b \<noteq> NaN \<and> \<not> jlt a b)"

definition jle :: "jsnum \<Rightarrow> jsnum \<Rightarrow> bool" where
  "jle a b = jge b a"

definition jeq :: "jsnum \<Rightarrow> jsnum \<Rightarrow> bool" where
  "jeq a b = (a \<noteq> NaN \<and> a = b)"

text \<open>
  Multiplication by a positive double (\<^verbatim>\<open>maxCost * 0.33\<close>, with \<open>c\<close> the double of the
  literal) and division by 2 (\<^verbatim>\<open>(maxCost + secondMaxCost) / 2\<close>, with \<open>c = 1/2\<close>).
\<close>

fun jscale :: "rat \<Rightarrow> jsnum \<Rightarrow> jsnum" where
  "jscale c (Fin a) = mk (c * a)"
| "jscale c x = x"

text \<open>\<^verbatim>\<open>x || 0\<close> on a number: 0 and NaN are falsy.\<close>

definition orZero :: "jsnum \<Rightarrow> jsnum" where
  "orZero x = (if x = NaN \<or> x = Fin 0 then Fin 0 else x)"

text \<open>
  \<^verbatim>\<open>parseFloat(s)\<close> for the strings the parser passes to it, which are matches of
  \<^verbatim>\<open>[\d.]+\<close>: the longest prefix \<^verbatim>\<open>digits\<close>, \<^verbatim>\<open>digits.digits\<close> or \<^verbatim>\<open>.digits\<close> is the
  number, rounded to a double; a string with no such prefix gives NaN.  Signs, exponents
  and leading white space cannot occur in a match of \<^verbatim>\<open>[\d.]+\<close>.
\<close>

definition parseFloat :: "string \<Rightarrow> jsnum" where
  "parseFloat s =
     (let ip = takeWhile isDigit s;
          r = dropWhile isDigit s;
          fp = (case r of [] \<Rightarrow> [] | c # t \<Rightarrow> if c = CHR ''.'' then takeWhile isDigit t else [])
      in if ip = [] \<and> fp = [] then NaN
         else mk (of_nat (digitsVal ip) + of_nat (digitsVal fp) / 10 ^ length fp))"

text \<open>\<^verbatim>\<open>parseInt(s)\<close> for a match of \<^verbatim>\<open>\d+\<close>: the number of the digits, rounded to a double.\<close>

definition parseInt :: "string \<Rightarrow> jsnum" where
  "parseInt s = mk (of_nat (digitsVal s))"

text \<open>
  The decimal string of a double from \<open>10^21\<close> on, which is a natural number \<open>x\<close>: the
  least number \<open>k\<close> of digits, and the \<open>k\<close>-digit number \<open>n\<close> nearest to \<open>x\<close>, such that
  \<open>n\<close> times a power of ten rounds to \<open>x\<close>; 17 digits always do.  It is printed as
  \<^verbatim>\<open>d.ddde+N\<close>.
\<close>

definition shortestDigits :: "nat \<Rightarrow> nat \<times> nat" where
  "shortestDigits x =
     (let e = length (natToString x);
          cand = (\<lambda>k. min (nat (roundHalfEven (of_nat x / 10 ^ (e - k)))) (10 ^ k - 1));
          ok = (\<lambda>k. toDouble (of_nat (cand k) * 10 ^ (e - k)) = of_nat x)
      in case find ok [1..<17] of Some k \<Rightarrow> (cand k, k) | None \<Rightarrow> (cand 17, 17))"

definition exponentString :: "nat \<Rightarrow> string" where
  "exponentString x =
     (let (n, k) = shortestDigits x; ds = natToString n
      in (if k = 1 then ds else hd ds # CHR ''.'' # tl ds)
           @ ''e+'' @ natToString (length (natToString x) - 1))"

text \<open>
  \<^verbatim>\<open>x.toFixed(2)\<close>: below \<open>10^21\<close> the nearest multiple of 1/100 to the exact value of
  the double, the larger of two equally near ones; from \<open>10^21\<close> on the decimal string of
  the double.
\<close>

definition twoDigits :: "nat \<Rightarrow> string" where
  "twoDigits n = [digitChar (n div 10 mod 10), digitChar (n mod 10)]"

fun toFixed2 :: "jsnum \<Rightarrow> string" where
  "toFixed2 NaN = ''NaN''"
| "toFixed2 PInf = ''Infinity''"
| "toFixed2 NInf = ''-Infinity''"
| "toFixed2 (Fin q) =
     (if q < 0 then ''-'' else '''')
       @ (if 10 ^ 21 \<le> \<bar>q\<bar> then exponentString (nat \<lfloor>\<bar>q\<bar>\<rfloor>)
          else (let n = nat \<lfloor>\<bar>q\<bar> * 100 + 1 / 2\<rfloor>
                in natToString (n div 100) @ ''.'' @ twoDigits (n mod 100)))"

section \<open>The regular expressions of the parser\<close>

definition stripPrefix :: "string \<Rightarrow> string \<Rightarrow> string option" where
  "stripPrefix p s = (if startsWith s p then Some (drop (length p) s) else None)"

text \<open>
  \<^verbatim>\<open>const costRegex = /cost=([\d.]+)\\..([\d.]+)/\<close>.  In the regular expression literal
  \<^verbatim>\<open>\\\<close> is an escaped backslash, so the pattern reads: \<^verbatim>\<open>cost=\<close>, a run of digits and
  dots (group 1), one backslash, two characters of any kind, a run of digits and dots
  (group 2).  The runs are greedy.  Group 1 can only be the whole run that follows
  \<^verbatim>\<open>cost=\<close>, since a shorter one is followed by a digit or a dot and not by the backslash;
  group 2 is the whole run after the two characters, since nothing follows it in the
  pattern.  \<open>costMatchAt\<close> is the pattern anchored at the head of the string and returns
  group 2; \<open>costMatch\<close> is \<^verbatim>\<open>content.match(costRegex)\<close>, the leftmost match.
\<close>

definition costMatchAt :: "string \<Rightarrow> string option" where
  "costMatchAt s =
     (case stripPrefix ''cost='' s of
        None \<Rightarrow> None
      | Some t \<Rightarrow>
          if takeWhile isNumCh t = [] then None
          else (case dropWhile isNumCh t of
                  b # x # y # u \<Rightarrow>
                    if b = backslash \<and> isAnyCh x \<and> isAnyCh y \<and> takeWhile isNumCh u \<noteq> []
                    then Some (takeWhile isNumCh u) else None
                | _ \<Rightarrow> None))"

fun costMatch :: "string \<Rightarrow> string option" where
  "costMatch [] = None"
| "costMatch (c # s) =
     (case costMatchAt (c # s) of
        Some g \<Rightarrow> Some g
      | None \<Rightarrow> costMatch s)"

text \<open>\<^verbatim>\<open>const totalCost = costMatch ? parseFloat(costMatch[2]) : 0\<close>.\<close>

definition lineCost :: "string \<Rightarrow> jsnum" where
  "lineCost content =
     (case costMatch content of
        Some g \<Rightarrow> parseFloat g
      | None \<Rightarrow> Fin 0)"

text \<open>
  \<^verbatim>\<open>content.replace(/^->\\s*/, '')\<close>: again \<^verbatim>\<open>\\\<close> is an escaped backslash, so the
  pattern is \<^verbatim>\<open>->\<close>, one backslash and any number of letters \<^verbatim>\<open>s\<close>, at the start of the
  string.  A string that does not start so is returned as it is.
\<close>

definition stripArrow :: "string \<Rightarrow> string" where
  "stripArrow content =
     (case stripPrefix (''->'' @ [backslash]) content of
        Some t \<Rightarrow> dropWhile (\<lambda>c. c = CHR ''s'') t
      | None \<Rightarrow> content)"

text \<open>\<^verbatim>\<open>line.search(/\S|$/)\<close>: the index of the first character that is not white space,
  the length of the line when there is none.\<close>

definition lineIndentation :: "string \<Rightarrow> nat" where
  "lineIndentation line = length (takeWhile isSpace line)"

section \<open>The plan parser\<close>

record stackEntry =
  entryId :: string
  indentation :: nat

record nodeInfo =
  details :: "string list"
  totalCost :: jsnum
  children :: "string list"

text \<open>
  The locals of \<^verbatim>\<open>parseExplainToMermaid\<close> that the loop over the lines changes.
  \<open>nodeInfos\<close> is the object \<^verbatim>\<open>nodeInfos\<close>, its keys in insertion order (the keys
  \<^verbatim>\<open>node0\<close>, \<^verbatim>\<open>node1\<close>, ... are not array indices, so \<^verbatim>\<open>for ... in\<close> and \<^verbatim>\<open>Object.values\<close>
  follow insertion order); \<open>edgeList\<close> is the array \<^verbatim>\<open>edges\<close>; \<open>nodeStack\<close> is the
  array \<^verbatim>\<open>nodeStack\<close> with its last element, the top, at the head of the list.
\<close>

record scanState =
  idCounter :: nat
  nodeStack :: "stackEntry list"
  edgeList :: "string list"
  nodeInfos :: "(string \<times> nodeInfo) list"

definition nodeName :: "nat \<Rightarrow> string" where
  "nodeName k = ''node'' @ natToString k"

text \<open>\<^verbatim>\<open>while (nodeStack.length > 0 && top.indentation >= indentation) nodeStack.pop()\<close>.\<close>

fun popStack :: "nat \<Rightarrow> stackEntry list \<Rightarrow> stackEntry list" where
  "popStack ind [] = []"
| "popStack ind (e # st) = (if ind \<le> indentation e then popStack ind st else e # st)"

text \<open>\<^verbatim>\<open>if (nodeInfos[parentId]) nodeInfos[parentId].children.push(id)\<close>.\<close>

definition addChild :: "string \<Rightarrow> string \<Rightarrow> (string \<times> nodeInfo) list \<Rightarrow> (string \<times> nodeInfo) list" where
  "addChild parentId cid infos =
     (case map_of infos parentId of
        None \<Rightarrow> infos
      | Some n \<Rightarrow> AList.update parentId (n\<lparr>children := children n @ [cid]\<rparr>) infos)"

text \<open>The body of \<^verbatim>\<open>lines.forEach(line => ...)\<close>.\<close>

definition parseLine :: "string \<Rightarrow> scanState \<Rightarrow> scanState" where
  "parseLine line s =
     (let ind = lineIndentation line;
          content = trim line;
          cost = lineCost content
      in if startsWith content ''->'' then
           (let nodeText = stripArrow content;
                nid = nodeName (idCounter s);
                st = popStack ind (nodeStack s);
                s1 = (case st of
                        [] \<Rightarrow> s
                      | p # _ \<Rightarrow>
                          s\<lparr>edgeList := edgeList s @ [entryId p @ '' --> '' @ nid],
                            nodeInfos := addChild (entryId p) nid (nodeInfos s)\<rparr>)
            in s1\<lparr>idCounter := idCounter s + 1,
                  nodeStack := \<lparr>entryId = nid, indentation = ind\<rparr> # st,
                  nodeInfos := AList.update nid
                     \<lparr>details = [nodeText], totalCost = cost, children = []\<rparr> (nodeInfos s1)\<rparr>)
         else (case nodeStack s of
                 [] \<Rightarrow>
                   (let nid = nodeName (idCounter s)
                    in s\<lparr>idCounter := idCounter s + 1,
                         nodeStack := [\<lparr>entryId = nid, indentation = ind\<rparr>],
                         nodeInfos := AList.update nid
                            \<lparr>details = [content], totalCost = cost, children = []\<rparr> (nodeInfos s)\<rparr>)
               | tp # _ \<Rightarrow>
                   (case map_of (nodeInfos s) (entryId tp) of
                      None \<Rightarrow> s
                    | Some n \<Rightarrow>
                        s\<lparr>nodeInfos := AList.update (entryId tp)
                             (n\<lparr>details := details n @ [content],
                                totalCost := (if jeq (totalCost n) (Fin 0) \<and> jgt cost (Fin 0)
                                              then cost else totalCost n)\<rparr>)
                             (nodeInfos s)\<rparr>)))"

definition initialState :: scanState where
  "initialState = \<lparr>idCounter = 0, nodeStack = [], edgeList = [], nodeInfos = []\<rparr>"

definition scanLines :: "string list \<Rightarrow> scanState \<Rightarrow> scanState" where
  "scanLines ls s = foldl (\<lambda>st line. parseLine line st) s ls"

text \<open>\<^verbatim>\<open>text.split('\n').filter(line => line.trim() !== '')\<close>.\<close>

definition planLines :: "string \<Rightarrow> string list" where
  "planLines text = filter (\<lambda>line. trim line \<noteq> []) (split_lines text)"

section \<open>Cost attribution and severity thresholds\<close>

text \<open>
  \<^verbatim>\<open>node.children.reduce((sum, childId) => sum + (nodeInfos[childId]?.totalCost || 0), 0)\<close>:
  a child that is not in the map, or whose cost is 0 or NaN, adds 0.
\<close>

definition childCost :: "(string \<times> nodeInfo) list \<Rightarrow> string \<Rightarrow> jsnum" where
  "childCost infos childId =
     (case map_of infos childId of
        None \<Rightarrow> Fin 0
      | Some c \<Rightarrow> orZero (totalCost c))"

definition childrenTotalCost :: "(string \<times> nodeInfo) list \<Rightarrow> nodeInfo \<Rightarrow> jsnum" where
  "childrenTotalCost infos node =
     foldl (\<lambda>sum childId. jadd sum (childCost infos childId)) (Fin 0) (children node)"

text \<open>\<^verbatim>\<open>node.exclusiveCost = node.totalCost - childrenTotalCost;
  if (node.exclusiveCost < 0) node.exclusiveCost = 0\<close>.\<close>

definition exclusiveOf :: "(string \<times> nodeInfo) list \<Rightarrow> nodeInfo \<Rightarrow> jsnum" where
  "exclusiveOf infos node =
     (let e = jsub (totalCost node) (childrenTotalCost infos node)
      in if jlt e (Fin 0) then Fin 0 else e)"

record nodeInfoX = nodeInfo +
  exclusiveCost :: jsnum

text \<open>
  The loop \<^verbatim>\<open>for (const id in nodeInfos)\<close> that adds \<^verbatim>\<open>exclusiveCost\<close> to every node.  It
  reads only \<^verbatim>\<open>totalCost\<close> and \<^verbatim>\<open>children\<close>, which it does not change, so every node is
  computed from the map as the scan left it.
\<close>

definition attributeCosts :: "(string \<times> nodeInfo) list \<Rightarrow> (string \<times> nodeInfoX) list" where
  "attributeCosts infos =
     map (\<lambda>(nid, n). (nid, \<lparr>details = details n, totalCost = totalCost n, children = children n,
                              exclusiveCost = exclusiveOf infos n\<rparr>)) infos"

text \<open>\<^verbatim>\<open>Object.values(nodeInfos).map(info => info.exclusiveCost).filter(c => c > 0)\<close>.\<close>

definition allExclusiveCosts :: "(string \<times> nodeInfoX) list \<Rightarrow> jsnum list" where
  "allExclusiveCosts xs = filter (\<lambda>c. jgt c (Fin 0)) (map (\<lambda>(nid, n). exclusiveCost n) xs)"

text \<open>\<^verbatim>\<open>[...new Set(xs)]\<close>: the first occurrence of every value, in order.\<close>

fun uniq :: "'a list \<Rightarrow> 'a list" where
  "uniq [] = []"
| "uniq (x # xs) = x # uniq (filter (\<lambda>y. y \<noteq> x) xs)"

text \<open>
  \<^verbatim>\<open>.sort((a, b) => b - a)\<close> on distinct positive numbers: the comparator is a consistent
  descending order there, so the result is the descending arrangement, here by insertion.
\<close>

fun insertDesc :: "jsnum \<Rightarrow> jsnum list \<Rightarrow> jsnum list" where
  "insertDesc x [] = [x]"
| "insertDesc x (y # ys) = (if jlt x y then y # insertDesc x ys else x # y # ys)"

definition sortDesc :: "jsnum list \<Rightarrow> jsnum list" where
  "sortDesc xs = foldr insertDesc xs []"

definition sortedUniqueCosts :: "jsnum list \<Rightarrow> jsnum list" where
  "sortedUniqueCosts costs = sortDesc (uniq costs)"

text \<open>\<^verbatim>\<open>const maxCost = sortedUniqueCosts[0] || 0\<close>.\<close>

definition maxCost :: "jsnum list \<Rightarrow> jsnum" where
  "maxCost costs =
     (case sortedUniqueCosts costs of
        [] \<Rightarrow> Fin 0
      | m # _ \<Rightarrow> orZero m)"

definition highCostThreshold :: "jsnum list \<Rightarrow> jsnum" where
  "highCostThreshold costs =
     (if costs = [] then Fin 0
      else (case sortedUniqueCosts costs of
              m # secondMaxCost # _ \<Rightarrow> jscale (1 / 2) (jadd (maxCost costs) secondMaxCost)
            | _ \<Rightarrow> mk (1 / 100000)))"

definition mediumCostThreshold :: "jsnum list \<Rightarrow> jsnum" where
  "mediumCostThreshold costs =
     (if costs = [] then Fin 0 else jscale (toDouble (33 / 100)) (maxCost costs))"

section \<open>The graph emitter\<close>

text \<open>\<^verbatim>\<open>s.replace(/"/g, '"')\<close>: every double quote is replaced by the replacement string,
  which is one double quote.\<close>

definition replaceQuotes :: "string \<Rightarrow> string" where
  "replaceQuotes s = concat (map (\<lambda>c. if c = dquote then [dquote] else [c]) s)"

definition nodeLabel :: "string list \<Rightarrow> jsnum \<Rightarrow> string" where
  "nodeLabel ds e =
     replaceQuotes (join ''<br/>'' (ds @ [''<b>Self Cost: '' @ toFixed2 e @ ''</b>'']))"

definition nodeDecl :: "string \<Rightarrow> string list \<Rightarrow> jsnum \<Rightarrow> string" where
  "nodeDecl nid ds e = nid @ ''['' @ [dquote] @ nodeLabel ds e @ [dquote] @ '']''"

definition costColor :: "string \<Rightarrow> jsnum \<Rightarrow> jsnum \<Rightarrow> jsnum \<Rightarrow> string" where
  "costColor theme e high medium =
     (if jge e high then (if theme = ''dark'' then ''#8B0000'' else ''#ffcccc'')
      else if jge e medium then (if theme = ''dark'' then ''#BDB76B'' else ''#ffffcc'')
      else (if theme = ''dark'' then ''#2E8B57'' else ''#ccffcc''))"

definition styleDecl :: "string \<Rightarrow> string \<Rightarrow> string" where
  "styleDecl nid color = ''style '' @ nid @ '' fill:'' @ color @ '',stroke:#333,stroke-width:2px''"

text \<open>
  A value of a node map as the analyzer and the differ see it: \<^verbatim>\<open>null\<close> or
  \<^verbatim>\<open>undefined\<close>, or an object with \<^verbatim>\<open>details\<close> (missing, a string, or an array of strings)
  and a number \<^verbatim>\<open>exclusiveCost\<close>.  A node map is the list of its entries in the order
  \<^verbatim>\<open>for ... in\<close> visits them.
\<close>

datatype jsdetails = Undefined | Str string | Arr "string list"

datatype jsnode = Nullish | Obj jsdetails jsnum

record parsed =
  nodes :: "string list"
  edges :: "string list"
  styles :: "string list"
  nodeDetailsMap :: "(string \<times> jsnode) list"

text \<open>
  The last loop of \<^verbatim>\<open>parseExplainToMermaid\<close>.  \<^verbatim>\<open>details\<close> is an array there, so
  \<^verbatim>\<open>Array.isArray(details) ? details : [details]\<close> is \<^verbatim>\<open>details\<close>.  The keys of the loop are
  the keys of an object, hence distinct, and every \<^verbatim>\<open>nodeDetailsMap[id] = ...\<close> adds an
  entry.
\<close>

definition emitStyles :: "string \<Rightarrow> jsnum \<Rightarrow> jsnum \<Rightarrow> (string \<times> nodeInfoX) list \<Rightarrow> string list" where
  "emitStyles theme high medium xs =
     concat (map (\<lambda>(nid, n). if jgt (exclusiveCost n) (Fin 0)
                               then [styleDecl nid (costColor theme (exclusiveCost n) high medium)]
                               else []) xs)"

definition parseExplainToMermaid :: "string \<Rightarrow> string \<Rightarrow> parsed" where
  "parseExplainToMermaid text theme =
     (let ls = planLines text
      in if length ls = 0
         then \<lparr>nodes = [], edges = [], styles = [], nodeDetailsMap = []\<rparr>
         else (let s = scanLines ls initialState;
                   xs = attributeCosts (nodeInfos s);
                   costs = allExclusiveCosts xs;
                   high = highCostThreshold costs;
                   medium = mediumCostThreshold costs
               in \<lparr>nodes = map (\<lambda>(nid, n). nodeDecl nid (details n) (exclusiveCost n)) xs,
                    edges = edgeList s,
                    styles = emitStyles theme high medium xs,
                    nodeDetailsMap = map (\<lambda>(nid, n). (nid, Obj (Arr (details n)) (exclusiveCost n))) xs\<rparr>))"

section \<open>The warning analyzer\<close>

record warning =
  wtype :: string
  message :: string
  severity :: string
  nodeId :: string

text \<open>
  The two symbols that open the messages, U+26A0 U+FE0F and U+2139 U+FE0F, are written
  as their UTF-8 bytes.  Messages are only built and compared, never scanned.
\<close>

definition warnSign :: string where
  "warnSign = [CHR 0xE2, CHR 0x9A, CHR 0xA0, CHR 0xEF, CHR 0xB8, CHR 0x8F]"

definition infoSign :: string where
  "infoSign = [CHR 0xE2, CHR 0x84, CHR 0xB9, CHR 0xEF, CHR 0xB8, CHR 0x8F]"

text \<open>\<^verbatim>\<open>content.match(/rows=(\d+)/)\<close>: group 1 of the leftmost match.\<close>

definition rowsMatchAt :: "string \<Rightarrow> string option" where
  "rowsMatchAt s =
     (case stripPrefix ''rows='' s of
        None \<Rightarrow> None
      | Some t \<Rightarrow> if takeWhile isDigit t = [] then None else Some (takeWhile isDigit t))"

fun rowsMatch :: "string \<Rightarrow> string option" where
  "rowsMatch [] = None"
| "rowsMatch (c # s) =
     (case rowsMatchAt (c # s) of
        Some g \<Rightarrow> Some g
      | None \<Rightarrow> rowsMatch s)"

text \<open>
  \<^verbatim>\<open>rows.toLocaleString()\<close> in the locale en-US, for the number \<^verbatim>\<open>parseInt\<close> has read
  from a match of \<^verbatim>\<open>\d+\<close>, a natural number or \<open>Infinity\<close>: the digits of the exact
  value of the double, as ECMA-402 formats a number, in groups of three with commas;
  \<open>Infinity\<close> is the symbol U+221E, written as its UTF-8 bytes.
\<close>

fun group3 :: "string \<Rightarrow> string" where
  "group3 (a # b # c # d # r) = a # b # c # CHR '','' # group3 (d # r)"
| "group3 r = r"

definition infinitySign :: string where
  "infinitySign = [CHR 0xE2, CHR 0x88, CHR 0x9E]"

fun toLocaleString :: "jsnum \<Rightarrow> string" where
  "toLocaleString (Fin q) = rev (group3 (rev (natToString (nat \<lfloor>q\<rfloor>))))"
| "toLocaleString PInf = infinitySign"
| "toLocaleString NInf = ''-'' @ infinitySign"
| "toLocaleString NaN = ''NaN''"

definition nestedLoopMessage :: string where
  "nestedLoopMessage = warnSign @ '' Nested Loop join detected. This can be very slow if the inner table is large. Consider adding proper join conditions or indexes. [Learn more](https://docs.aws.amazon.com/redshift/latest/dg/c_Nested_loop_join.html)''"

definition seqScanMessage :: "jsnum \<Rightarrow> string" where
  "seqScanMessage rows = warnSign @ '' Large Seq Scan detected ('' @ toLocaleString rows @ '' rows). Consider adding a sort key or filter conditions to reduce the scan size. [Learn more](https://docs.aws.amazon.com/redshift/latest/dg/t_Analyzing_tables.html)''"

definition broadcastMessage :: string where
  "broadcastMessage = infoSign @ '' Broadcast operation detected. Ensure the inner table being broadcast is small to avoid high network traffic. [Learn more](https://docs.aws.amazon.com/redshift/latest/dg/r_SVL_QUERY_REPORT.html#r_SVL_QUERY_REPORT-ds_bcast_inner)''"

definition hashMessage :: "jsnum \<Rightarrow> string" where
  "hashMessage e = warnSign @ '' Expensive Hash operation detected (exclusive cost: '' @ toFixed2 e @ ''). Consider if this hash step is necessary or if the data can be pre-sorted. [Learn more](https://docs.aws.amazon.com/redshift/latest/dg/c_Hash_join.html)''"

text \<open>The four checks of the loop body, each on the first detail line \<^verbatim>\<open>content\<close>.\<close>

definition nestedLoopRule :: "string \<Rightarrow> string \<Rightarrow> warning list" where
  "nestedLoopRule nid content =
     (if includes_str content ''Nested Loop''
      then [\<lparr>wtype = ''warning'', message = nestedLoopMessage, severity = ''high'', nodeId = nid\<rparr>]
      else [])"

definition seqScanRule :: "string \<Rightarrow> string \<Rightarrow> warning list" where
  "seqScanRule nid content =
     (if includes_str content ''Seq Scan''
      then (case rowsMatch content of
              None \<Rightarrow> []
            | Some g \<Rightarrow>
                (let rows = parseInt g
                 in if jgt rows (Fin 10000)
                    then [\<lparr>wtype = ''warning'', message = seqScanMessage rows,
                           severity = ''medium'', nodeId = nid\<rparr>]
                    else []))
      else [])"

definition broadcastRule :: "string \<Rightarrow> string \<Rightarrow> warning list" where
  "broadcastRule nid content =
     (if includes_str content ''DS_BCAST''
      then [\<lparr>wtype = ''info'', message = broadcastMessage, severity = ''medium'', nodeId = nid\<rparr>]
      else [])"

definition hashRule :: "string \<Rightarrow> string \<Rightarrow> jsnum \<Rightarrow> warning list" where
  "hashRule nid content e =
     (if includes_str content ''Hash'' \<and> jgt e (Fin 50)
      then [\<lparr>wtype = ''warning'', message = hashMessage e, severity = ''medium'', nodeId = nid\<rparr>]
      else [])"

text \<open>
  The safety check of the loop,
  \<^verbatim>\<open>!node || !node.details || !Array.isArray(node.details) || node.details.length === 0\<close>.
  A missing \<^verbatim>\<open>details\<close> and an empty string are falsy; an array, also an empty one, is
  truthy.
\<close>

definition truthyDetails :: "jsdetails \<Rightarrow> bool" where
  "truthyDetails d = (case d of Undefined \<Rightarrow> False | Str t \<Rightarrow> t \<noteq> [] | Arr ds \<Rightarrow> True)"

definition isArray :: "jsdetails \<Rightarrow> bool" where
  "isArray d = (case d of Arr ds \<Rightarrow> True | _ \<Rightarrow> False)"

fun skipped :: "jsnode \<Rightarrow> bool" where
  "skipped Nullish = True"
| "skipped (Obj d e) =
     (\<not> truthyDetails d \<or> \<not> isArray d \<or> (case d of Arr ds \<Rightarrow> length ds = 0 | _ \<Rightarrow> False))"

text \<open>One round of \<^verbatim>\<open>for (const nodeId in nodeInfos)\<close>; \<^verbatim>\<open>content\<close> is
  \<^verbatim>\<open>node.details[0]\<close>, which exists once the check has let the node through.\<close>

definition nodeWarnings :: "string \<Rightarrow> jsnode \<Rightarrow> warning list" where
  "nodeWarnings nid node =
     (if skipped node then []
      else (case node of
              Obj (Arr (content # rest)) e \<Rightarrow>
                nestedLoopRule nid content @ seqScanRule nid content
                  @ broadcastRule nid content @ hashRule nid content e
            | _ \<Rightarrow> []))"

definition collectWarnings :: "(string \<times> jsnode) list \<Rightarrow> warning list" where
  "collectWarnings nodeMap = concat (map (\<lambda>(nid, node). nodeWarnings nid node) nodeMap)"

text \<open>\<^verbatim>\<open>xs.findIndex(P)\<close>: the index of the first element with \<open>P\<close>, \<open>-1\<close> when there is none.\<close>

fun findIndex :: "('a \<Rightarrow> bool) \<Rightarrow> 'a list \<Rightarrow> int" where
  "findIndex P [] = - 1"
| "findIndex P (x # xs) =
     (if P x then 0 else (let i = findIndex P xs in if i < 0 then - 1 else i + 1))"

text \<open>\<^verbatim>\<open>warnings.filter((warning, index, self) =>
  index === self.findIndex(w => w.message === warning.message))\<close>.\<close>

definition uniqueWarnings :: "warning list \<Rightarrow> warning list" where
  "uniqueWarnings ws =
     map snd (filter (\<lambda>(index, warning).
                 int index = findIndex (\<lambda>w. message w = message warning) ws)
              (enumerate 0 ws))"

definition analyzePerformanceWarnings :: "(string \<times> jsnode) list \<Rightarrow> warning list" where
  "analyzePerformanceWarnings nodeMap = uniqueWarnings (collectWarnings nodeMap)"

section \<open>The plan differ\<close>


lemma stripPrefix_Some: "stripPrefix p s = Some t \<Longrightarrow> s = p @ t"
proof -
  assume a: "stripPrefix p s = Some t"
  then have "take (length p) s = p" and "t = drop (length p) s"
    by (simp_all add: stripPrefix_def startsWith_def split: if_splits)
  then show ?thesis
    by (metis append_take_drop_id)
qed

















definition newline :: string where
  "newline = [CHR 0x0A]"


section \<open>Example plans\<close>

definition plain_cost_line :: string where
  "plain_cost_line = ''XN Seq Scan on a  (cost=0.00..59.00 rows=1000 width=4)''"

definition quoted_plan :: string where
  "quoted_plan = ''Seq Scan on '' @ [dquote] @ ''t'' @ [dquote]"

definition tiny_cost_plan :: string where
  "tiny_cost_plan = ''X cost=1'' @ [backslash] @ ''..0.000001''"

definition twin_nested_loops :: "(string \<times> jsnode) list" where
  "twin_nested_loops =
     [(''node0'', Obj (Arr [''XN Nested Loop'']) (Fin 0)),
      (''node1'', Obj (Arr [''XN Nested Loop DS_BCAST_INNER'']) (Fin 0))]"

definition mixed_node_map :: "(string \<times> jsnode) list" where
  "mixed_node_map =
     [(''a'', Nullish),
      (''b'', Obj Undefined (Fin 99)),
      (''c'', Obj (Str ''Hash'') (Fin 99)),
      (''d'', Obj (Arr []) (Fin 99)),
      (''e'', Obj (Arr [''XN Hash Join DS_BCAST_INNER'', ''Nested Loop'']) (Fin 60))]"



definition nan_cost_plan :: string where
  "nan_cost_plan = ''cost=1'' @ [backslash] @ ''ab.''"

definition nan_child_plan :: string where
  "nan_child_plan =
     ''Join cost=1'' @ [backslash] @ ''ab5'' @ newline @
     ''  -> Scan cost=1'' @ [backslash] @ ''ab.''"

definition nested_plan :: string where
  "nested_plan = ''R'' @ newline @ ''  -> A'' @ newline @ ''    -> B''"

definition sibling_plan :: string where
  "sibling_plan = ''R'' @ newline @ ''  -> A'' @ newline @ ''Filter'' @ newline @ ''  -> B''"

section \<open>Auxiliary notions\<close>

text \<open>What every warning of the node \<open>nid\<close> with first detail line \<open>content\<close> satisfies.\<close>

definition wellFormed :: "string \<Rightarrow> string \<Rightarrow> warning \<Rightarrow> bool" where
  "wellFormed nid content w =
     (nodeId w = nid \<and>
      (wtype w = ''info'' \<longrightarrow> includes_str content ''DS_BCAST'' \<and> message w = broadcastMessage) \<and>
      (wtype w = ''warning'' \<or> wtype w = ''info'') \<and>
      (severity w = ''high'' \<or> severity w = ''medium''))"




text \<open>A child line: its trimmed content starts with the marker.\<close>

definition isArrow :: "string \<Rightarrow> bool" where
  "isArrow line = startsWith (trim line) ''->''"

text \<open>The lines that open a node: the first line, and every later child line.\<close>

fun nodeLinesOf :: "string list \<Rightarrow> string list" where
  "nodeLinesOf [] = []"
| "nodeLinesOf (l # ls) = l # filter isArrow ls"

text \<open>The nodes of a list of lines in the order of their creation, each with the
  identifier and the indentation the parser gives it.\<close>

definition nodeEntries :: "string list \<Rightarrow> stackEntry list" where
  "nodeEntries ls =
     map (\<lambda>(k, l). \<lparr>entryId = nodeName k, indentation = lineIndentation l\<rparr>)
       (enumerate 0 (nodeLinesOf ls))"

text \<open>The parent of a node of indentation \<open>ind\<close>, given the nodes before it, the latest
  first: the nearest one of smaller indentation.\<close>

definition parentEntry :: "stackEntry list \<Rightarrow> nat \<Rightarrow> stackEntry option" where
  "parentEntry older ind = find (\<lambda>p. indentation p < ind) older"

text \<open>The children of the node \<open>pid\<close> among the nodes \<open>es\<close> (the latest first), in the
  order of their creation.\<close>

fun childrenIn :: "string \<Rightarrow> stackEntry list \<Rightarrow> string list" where
  "childrenIn pid [] = []"
| "childrenIn pid (e # older) =
     childrenIn pid older @
       (case parentEntry older (indentation e) of
          None \<Rightarrow> []
        | Some p \<Rightarrow> if entryId p = pid then [entryId e] else [])"

text \<open>The children of the node \<open>pid\<close> in the lines \<open>ls\<close>.\<close>

definition specChildren :: "string list \<Rightarrow> string \<Rightarrow> string list" where
  "specChildren ls pid = childrenIn pid (rev (nodeEntries ls))"

text \<open>
  The children of the node of line \<open>i\<close> in the words of the claim: the child lines that
  follow line \<open>i\<close>, up to the first line that is not indented more than line \<open>i\<close>.  A
  line is named by the identifier the parser gives it, the count of the node lines
  before it.  Meant for \<open>i\<close> below the number of lines.
\<close>

definition claimedChildren :: "string list \<Rightarrow> nat \<Rightarrow> string list" where
  "claimedChildren ls i =
     (let d = lineIndentation (ls ! i);
          block = takeWhile (\<lambda>(j, l). d < lineIndentation l) (enumerate (Suc i) (drop (Suc i) ls))
      in map (\<lambda>(j, l). nodeName (length (nodeLinesOf (take j ls))))
           (filter (\<lambda>(j, l). isArrow l) block))"

text \<open>The children list of a key of the node map.\<close>

definition childrenOf :: "(string \<times> nodeInfo) list \<Rightarrow> string \<Rightarrow> string list option" where
  "childrenOf infos pid = map_option children (map_of infos pid)"

text \<open>The top of a stack, if it has one.\<close>

definition stackTop :: "stackEntry list \<Rightarrow> stackEntry option" where
  "stackTop st = (case st of [] \<Rightarrow> None | p # _ \<Rightarrow> Some p)"

text \<open>
  What holds of the parser's state after the lines \<open>ls\<close>: the counter and the keys of
  the node map are those of the nodes of \<open>ls\<close>; popping the stack for an indentation
  leaves the nearest earlier node of smaller indentation on top; every node's children
  are as \<open>childrenIn\<close> says; the stack is empty only before the first line, and its
  entries are nodes of \<open>ls\<close>.
\<close>

definition scanInv :: "string list \<Rightarrow> scanState \<Rightarrow> bool" where
  "scanInv ls s =
     (idCounter s = length (nodeEntries ls) \<and>
      map fst (nodeInfos s) = map entryId (nodeEntries ls) \<and>
      (\<forall>d. stackTop (popStack d (nodeStack s)) = parentEntry (rev (nodeEntries ls)) d) \<and>
      (\<forall>pid n. map_of (nodeInfos s) pid = Some n \<longrightarrow>
                 children n = childrenIn pid (rev (nodeEntries ls))) \<and>
      ((nodeStack s = []) = (ls = [])) \<and>
      set (nodeStack s) \<subseteq> set (nodeEntries ls))"

text \<open>The node map after the new node has been added to its parent's children.\<close>

definition withChild :: "stackEntry list \<Rightarrow> string \<Rightarrow> (string \<times> nodeInfo) list \<Rightarrow> (string \<times> nodeInfo) list" where
  "withChild st nid infos = (case st of [] \<Rightarrow> infos | p # _ \<Rightarrow> addChild (entryId p) nid infos)"

text \<open>The node a line opens.\<close>

definition newNode :: "string \<Rightarrow> nodeInfo" where
  "newNode l =
     \<lparr>details = [if isArrow l then stripArrow (trim l) else trim l],
      totalCost = lineCost (trim l), children = []\<rparr>"

section \<open>Evaluation on concrete plans\<close>

lemmas str_defs = trim_def isSpace_def startsWith_def stripPrefix_def isDigit_def isNumCh_def
  isAnyCh_def backslash_def dquote_def digitChar_def digitVal_def digitsVal_def natToString.simps

text \<open>Floors and ceilings of quotients of numerals, for the evaluation of \<open>toDouble\<close>.\<close>

lemma floor_rat_numeral [simp]:
  "\<lfloor>(numeral a :: rat) / numeral b\<rfloor> = numeral a div numeral b"
  using floor_divide_of_int_eq [of "numeral a" "numeral b", where ?'a = rat] by simp

lemma floor_rat_one [simp]: "\<lfloor>(1 :: rat) / numeral b\<rfloor> = 1 div numeral b"
  using floor_divide_of_int_eq [of 1 "numeral b", where ?'a = rat] by simp

lemma ceiling_rat_numeral [simp]:
  "\<lceil>(numeral a :: rat) / numeral b\<rceil> = - (- numeral a div numeral b)"
  by (metis ceiling_def floor_divide_of_int_eq minus_divide_left of_int_minus of_int_numeral)

lemma ceiling_rat_one [simp]: "\<lceil>(1 :: rat) / numeral b\<rceil> = - (- 1 div numeral b)"
  by (metis ceiling_def floor_divide_of_int_eq minus_divide_left of_int_minus of_int_numeral
      of_int_1)

lemmas dbl_defs = mk_def overflow_bound_def toDouble_def roundPos_def roundHalfEven_def expo_def
  pow2_def bits.simps Let_def

text \<open>The doubles of the numbers in the example plans.\<close>

lemma mk_values:
  "mk 0 = Fin 0"
  "mk 5 = Fin 5"
  "mk 59 = Fin 59"
  "mk (1 / 1000000) = Fin (4722366482869645 / 4722366482869645213696)"
  "mk (1 / 100000) = Fin (5902958103587057 / 590295810358705651712)"
  "mk (4722366482869645 / 4722366482869645213696)
     = Fin (4722366482869645 / 4722366482869645213696)"
  by (simp_all add: dbl_defs)

lemma toDouble_33: "toDouble (33 / 100) = 5944751508129055 / 18014398509481984"
  by (simp add: dbl_defs)

lemma tiny_medium:
  "jscale (toDouble (33 / 100)) (Fin (4722366482869645 / 4722366482869645213696))
     = Fin (1558380939346983 / 4722366482869645213696)"
  by (simp add: toDouble_33) (simp add: dbl_defs)

lemmas num_defs = mk_values jsub_def jgt_def jge_def jle_def jeq_def orZero_def
  parseFloat_def parseInt_def twoDigits_def

lemmas parse_defs = costMatchAt_def lineCost_def stripArrow_def lineIndentation_def nodeName_def
  addChild_def parseLine_def initialState_def scanLines_def planLines_def Let_def

lemmas emit_defs = childCost_def childrenTotalCost_def exclusiveOf_def attributeCosts_def
  allExclusiveCosts_def sortDesc_def sortedUniqueCosts_def maxCost_def highCostThreshold_def
  mediumCostThreshold_def replaceQuotes_def nodeLabel_def nodeDecl_def costColor_def styleDecl_def
  emitStyles_def parseExplainToMermaid_def



text \<open>
  C1, a defect of the code.  The claim: a line with an annotation \<^verbatim>\<open>cost=A..B\<close> gives its
  node the inclusive cost \<open>B\<close>.  The parser's cost pattern asks for a backslash between
  the two numbers, so the annotation of an ordinary plan line is not recognised: the
  line below carries \<^verbatim>\<open>cost=0.00..59.00\<close>, whose second number is 59, and its node gets
  the default cost 0.
\<close>

theorem C1_plain_cost_annotation_not_read:
  "lineCost plain_cost_line = Fin 0 \<and> parseFloat ''59.00'' = Fin 59 \<and>
   map (\<lambda>(nid, n). (nid, totalCost n))
     (nodeInfos (scanLines (planLines plain_cost_line) initialState))
     = [(''node0'', Fin 0)]"
  by (simp add: plain_cost_line_def str_defs num_defs parse_defs)

text \<open>The same annotation is read once a backslash stands before the two dots.\<close>

lemma cost_after_backslash: "lineCost (''cost=0.00'' @ [backslash] @ ''..59.00'') = Fin 59"
  by (simp add: str_defs num_defs parse_defs)

text \<open>A line without a backslash never has its cost read.\<close>

lemma costMatchAt_needs_backslash: "costMatchAt s = Some g \<Longrightarrow> backslash \<in> set s"
proof -
  assume a: "costMatchAt s = Some g"
  then obtain t where t: "stripPrefix ''cost='' s = Some t"
    by (auto simp: costMatchAt_def split: option.splits)
  with a obtain x y u where "dropWhile isNumCh t = backslash # x # y # u"
    by (auto simp: costMatchAt_def split: if_splits list.splits)
  then have "backslash \<in> set (dropWhile isNumCh t)" by simp
  then have "backslash \<in> set t" by (rule set_dropWhileD)
  with stripPrefix_Some [OF t] show ?thesis by simp
qed

lemma costMatch_needs_backslash: "costMatch s = Some g \<Longrightarrow> backslash \<in> set s"
proof (induction s)
  case Nil
  then show ?case by simp
next
  case (Cons c s)
  show ?case
  proof (cases "costMatchAt (c # s)")
    case None
    with Cons show ?thesis by simp
  next
    case (Some h)
    then show ?thesis by (rule costMatchAt_needs_backslash)
  qed
qed

lemma lineCost_without_backslash: "backslash \<notin> set content \<Longrightarrow> lineCost content = Fin 0"
  by (cases "costMatch content") (auto simp: lineCost_def dest: costMatch_needs_backslash)

text \<open>
  C2, a defect of the code.  The claim: the operator text of a child line is the line
  without its marker \<^verbatim>\<open>->\<close> and the white space after it.  The pattern that strips the
  marker asks for a backslash after \<^verbatim>\<open>->\<close>, so on an ordinary child line nothing is
  stripped and the node's first detail line still begins with \<^verbatim>\<open>->\<close>.
\<close>

theorem C2_arrow_marker_kept:
  "stripArrow ''->  XN Seq Scan on a'' = ''->  XN Seq Scan on a'' \<and>
   nodeDetailsMap (parseExplainToMermaid ''  ->  XN Seq Scan on a'' ''light'')
     = [(''node0'', Obj (Arr [''->  XN Seq Scan on a'']) (Fin 0))]"
  by (simp add: str_defs num_defs parse_defs emit_defs)

text \<open>What the pattern does strip: the marker, a backslash and letters \<^verbatim>\<open>s\<close>.\<close>

lemma arrow_backslash_stripped: "stripArrow (''->'' @ [backslash] @ ''ss XN'') = '' XN''"
  by (simp add: str_defs num_defs parse_defs)

text \<open>A line without a backslash is never stripped.\<close>

lemma stripArrow_without_backslash: "backslash \<notin> set content \<Longrightarrow> stripArrow content = content"
proof (cases "stripPrefix (''->'' @ [backslash]) content")
  case None
  then show ?thesis by (simp add: stripArrow_def)
next
  case (Some t)
  assume "backslash \<notin> set content"
  with stripPrefix_Some [OF Some] show ?thesis by auto
qed

text \<open>
  C6, a defect of the code.  The claim: every double quote of a label is escaped in the
  node declaration.  The emitter replaces every double quote by a double quote, so the
  label of a node whose detail line is \<^verbatim>\<open>Seq Scan on "t"\<close> keeps both quotes as they are,
  between the two quotes that delimit the label.
\<close>

theorem C6_double_quote_not_escaped:
  "nodes (parseExplainToMermaid quoted_plan ''light'')
     = [''node0['' @ [dquote] @ ''Seq Scan on '' @ [dquote] @ ''t'' @ [dquote]
          @ ''<br/><b>Self Cost: 0.00</b>'' @ [dquote] @ '']'']"
  by (simp add: quoted_plan_def str_defs num_defs parse_defs emit_defs)

text \<open>The replacement changes no string.\<close>

lemma replaceQuotes_id: "replaceQuotes s = s"
  by (induction s) (simp_all add: replaceQuotes_def)

text \<open>
  C7, a defect of the code.  The claim: when exactly one node has a positive exclusive
  cost, the high threshold is \<open>1/100000\<close> and that node is classified high.  The
  threshold is as claimed, but the plan below has one node, of exclusive cost
  \<open>1/1000000\<close>: it is positive, below the threshold, and the node gets the colour of the
  medium class (\<^verbatim>\<open>#ffffcc\<close>), not the colour of the high class (\<^verbatim>\<open>#ffcccc\<close>).
\<close>

theorem C7_single_tiny_cost_is_medium:
  "nodeDetailsMap (parseExplainToMermaid tiny_cost_plan ''light'')
     = [(''node0'', Obj (Arr [tiny_cost_plan]) (mk (1 / 1000000)))] \<and>
   highCostThreshold [mk (1 / 1000000)] = mk (1 / 100000) \<and>
   costColor ''light'' (Fin 1) (mk (1 / 100000)) (Fin 0) = ''#ffcccc'' \<and>
   styles (parseExplainToMermaid tiny_cost_plan ''light'')
     = [''style node0 fill:#ffffcc,stroke:#333,stroke-width:2px'']"
  by (simp add: tiny_cost_plan_def str_defs num_defs parse_defs emit_defs tiny_medium
        del: jscale.simps)

text \<open>The part of the claim that holds: with one positive cost the high threshold is the
  double of \<open>0.00001\<close>.\<close>

lemma single_cost_threshold: "highCostThreshold [c] = mk (1 / 100000)"
  by (simp add: highCostThreshold_def sortedUniqueCosts_def sortDesc_def)

section \<open>Blank input\<close>

lemma split_lines_chars: "l \<in> set (split_lines s) \<Longrightarrow> set l \<subseteq> set s"
proof (induction s arbitrary: l)
  case Nil
  then show ?case by simp
next
  case (Cons c cs)
  show ?case
  proof (cases "c = CHR 0x0A")
    case True
    with Cons.prems have "l = [] \<or> l \<in> set (split_lines cs)" by simp
    with Cons.IH show ?thesis by auto
  next
    case False
    show ?thesis
    proof (cases "split_lines cs")
      case Nil
      with False Cons.prems show ?thesis by simp
    next
      case (Cons l' ls)
      with False Cons.prems have "l = c # l' \<or> l \<in> set ls" by simp
      moreover have "set l' \<subseteq> set cs" using Cons.IH [of l'] Cons by simp
      moreover have "\<And>x. x \<in> set ls \<Longrightarrow> set x \<subseteq> set cs" using Cons.IH Cons by simp
      ultimately show ?thesis by auto
    qed
  qed
qed

lemma trim_blank: "\<forall>c\<in>set l. isSpace c \<Longrightarrow> trim l = []"
proof -
  assume "\<forall>c\<in>set l. isSpace c"
  then have d: "dropWhile isSpace l = []" by (induction l) auto
  show ?thesis unfolding trim_def d by simp
qed

lemma planLines_blank: "\<forall>c\<in>set text. isSpace c \<Longrightarrow> planLines text = []"
proof -
  assume a: "\<forall>c\<in>set text. isSpace c"
  have "\<And>l. l \<in> set (split_lines text) \<Longrightarrow> trim l = []"
  proof -
    fix l assume "l \<in> set (split_lines text)"
    then have "set l \<subseteq> set text" by (rule split_lines_chars)
    with a have "\<forall>c\<in>set l. isSpace c" by blast
    then show "trim l = []" by (rule trim_blank)
  qed
  then show ?thesis
    by (simp add: planLines_def filter_empty_conv)
qed

text \<open>
  C9.  A text that is empty or holds nothing but white space (line feeds included)
  parses to no nodes, no edges, no styles and an empty node map, and the analyzer finds
  no warning in that map.  Neither function has a statement that can throw on the way:
  the parser returns before its loops, the analyzer's loop has no round.
\<close>

theorem C9_blank_text_parses_to_nothing:
  assumes "\<forall>c\<in>set text. isSpace c"
  shows "parseExplainToMermaid text theme
           = \<lparr>nodes = [], edges = [], styles = [], nodeDetailsMap = []\<rparr>
         \<and> analyzePerformanceWarnings (nodeDetailsMap (parseExplainToMermaid text theme)) = []"
  using planLines_blank [OF assms]
  by (simp add: parseExplainToMermaid_def analyzePerformanceWarnings_def collectWarnings_def
      uniqueWarnings_def)

theorem C9_blank_text_witness:
  "parseExplainToMermaid [CHR 0x20, CHR 0x0A, CHR 0x09, CHR 0x20] ''dark''
     = \<lparr>nodes = [], edges = [], styles = [], nodeDetailsMap = []\<rparr>
   \<and> analyzePerformanceWarnings
        (nodeDetailsMap (parseExplainToMermaid [CHR 0x20, CHR 0x0A, CHR 0x09, CHR 0x20] ''dark'')) = []
   \<and> parseExplainToMermaid [] ''light''
     = \<lparr>nodes = [], edges = [], styles = [], nodeDetailsMap = []\<rparr>"
proof -
  have blank: "\<forall>c\<in>set [CHR 0x20, CHR 0x0A, CHR 0x09, CHR 0x20]. isSpace c"
    by (simp add: isSpace_def)
  have none: "\<forall>c\<in>set []. isSpace c"
    by simp
  from C9_blank_text_parses_to_nothing [OF blank, of "''dark''"]
    C9_blank_text_parses_to_nothing [OF none, of "''light''"]
  show ?thesis by blast
qed

section \<open>Deduplication of warnings\<close>

lemma findIndex_neg_iff: "(findIndex P xs < 0) = (\<forall>x\<in>set xs. \<not> P x)"
  by (induction xs) (auto simp: Let_def)

lemma findIndex_first:
  "i < length xs \<Longrightarrow> P (xs ! i) \<Longrightarrow> (findIndex P xs = int i) = (\<forall>x\<in>set (take i xs). \<not> P x)"
proof (induction xs arbitrary: i)
  case Nil
  then show ?case by simp
next
  case (Cons x xs)
  show ?case
  proof (cases i)
    case 0
    with Cons.prems show ?thesis by simp
  next
    case (Suc j)
    with Cons.prems have j: "j < length xs" and pj: "P (xs ! j)" by simp_all
    show ?thesis
    proof (cases "P x")
      case True
      with Suc show ?thesis by simp
    next
      case False
      from j pj have "\<not> findIndex P xs < 0"
        by (auto simp: findIndex_neg_iff)
      with False have "findIndex P (x # xs) = findIndex P xs + 1"
        by (simp add: Let_def)
      with Cons.IH [OF j pj] False Suc show ?thesis by auto
    qed
  qed
qed

text \<open>An entry of the enumerated list survives the filter exactly when no earlier warning has its message.\<close>

lemma kept_iff:
  assumes "(i, w) \<in> set (enumerate 0 ws)"
  shows "(int i = findIndex (\<lambda>v. message v = message w) ws)
           = (\<forall>v\<in>set (take i ws). message v \<noteq> message w)"
proof -
  from assms have i: "i < length ws" and w: "ws ! i = w"
    by (auto simp: in_set_enumerate_eq)
  from findIndex_first [of i ws "\<lambda>v. message v = message w"] i w
  show ?thesis by auto
qed

lemma uniqueWarnings_alt:
  "uniqueWarnings ws =
     map snd (filter (\<lambda>(i, w). \<forall>v\<in>set (take i ws). message v \<noteq> message w) (enumerate 0 ws))"
  unfolding uniqueWarnings_def
  by (rule arg_cong [where f = "map snd"], rule filter_cong) (auto simp: kept_iff)

lemma all_take_nth:
  "i \<le> length xs \<Longrightarrow> (\<forall>v\<in>set (take i xs). Q v) = (\<forall>j<i. Q (xs ! j))"
  by (simp add: all_set_conv_all_nth)

lemma uniqueWarnings_mem:
  "(w \<in> set (uniqueWarnings ws)) =
     (\<exists>i<length ws. ws ! i = w \<and> (\<forall>j<i. message (ws ! j) \<noteq> message w))"
proof
  assume "w \<in> set (uniqueWarnings ws)"
  then obtain i where "(i, w) \<in> set (enumerate 0 ws)"
      and k: "\<forall>v\<in>set (take i ws). message v \<noteq> message w"
    by (auto simp: uniqueWarnings_alt)
  then have i: "i < length ws" "ws ! i = w"
    by (auto simp: in_set_enumerate_eq)
  with k have "\<forall>j<i. message (ws ! j) \<noteq> message w"
    by (simp add: all_take_nth)
  with i show "\<exists>i<length ws. ws ! i = w \<and> (\<forall>j<i. message (ws ! j) \<noteq> message w)"
    by blast
next
  assume "\<exists>i<length ws. ws ! i = w \<and> (\<forall>j<i. message (ws ! j) \<noteq> message w)"
  then obtain i where i: "i < length ws" "ws ! i = w"
      and k: "\<forall>j<i. message (ws ! j) \<noteq> message w"
    by blast
  from i k have "\<forall>v\<in>set (take i ws). message v \<noteq> message w"
    by (simp add: all_take_nth)
  moreover from i have "(i, w) \<in> set (enumerate 0 ws)"
    by (simp add: in_set_enumerate_eq)
  ultimately show "w \<in> set (uniqueWarnings ws)"
    by (force simp: uniqueWarnings_alt)
qed

lemma uniqueWarnings_subseq: "subseq (uniqueWarnings ws) ws"
proof -
  have "subseq (map snd (filter (\<lambda>(index, warning).
          int index = findIndex (\<lambda>w. message w = message warning) ws) (enumerate 0 ws)))
        (map snd (enumerate 0 ws))"
    by (intro subseq_map subseq_filter_left)
  then show ?thesis by (simp add: uniqueWarnings_def)
qed

lemma uniqueWarnings_first:
  assumes "w \<in> set (uniqueWarnings ws)"
  shows "find (\<lambda>v. message v = message w) ws = Some w"
proof -
  from assms obtain i where "i < length ws" "ws ! i = w" "\<forall>j<i. message (ws ! j) \<noteq> message w"
    by (auto simp: uniqueWarnings_mem)
  then show ?thesis
    by (auto simp: find_Some_iff)
qed

lemma uniqueWarnings_messages: "set (map message (uniqueWarnings ws)) = set (map message ws)"
proof
  show "set (map message (uniqueWarnings ws)) \<subseteq> set (map message ws)"
    by (auto simp: uniqueWarnings_mem)
next
  show "set (map message ws) \<subseteq> set (map message (uniqueWarnings ws))"
  proof
    fix m assume "m \<in> set (map message ws)"
    then obtain v where v: "v \<in> set ws" "message v = m" by auto
    then have "find (\<lambda>u. message u = m) ws \<noteq> None"
      by (auto simp: find_None_iff)
    then obtain w where f: "find (\<lambda>u. message u = m) ws = Some w" by auto
    then obtain i where "i < length ws" "ws ! i = w" "message w = m"
        "\<forall>j<i. message (ws ! j) \<noteq> m"
      by (auto simp: find_Some_iff)
    then have "w \<in> set (uniqueWarnings ws)"
      by (auto simp: uniqueWarnings_mem)
    with \<open>message w = m\<close> show "m \<in> set (map message (uniqueWarnings ws))" by force
  qed
qed

lemma uniqueWarnings_distinct: "distinct (map message (uniqueWarnings ws))"
proof -
  let ?K = "\<lambda>(i, w). \<forall>v\<in>set (take i ws). message v \<noteq> message w"
  let ?xs = "filter ?K (enumerate 0 ws)"
  have d: "distinct ?xs" by simp
  have inj: "inj_on (message \<circ> snd) (set ?xs)"
  proof (rule inj_onI)
    fix p q assume p: "p \<in> set ?xs" and q: "q \<in> set ?xs"
      and e: "(message \<circ> snd) p = (message \<circ> snd) q"
    obtain i w where pw: "p = (i, w)" by (cases p)
    obtain j v where qv: "q = (j, v)" by (cases q)
    from p pw have i: "i < length ws" "ws ! i = w" "\<forall>u\<in>set (take i ws). message u \<noteq> message w"
      by (auto simp: in_set_enumerate_eq)
    from q qv have j: "j < length ws" "ws ! j = v" "\<forall>u\<in>set (take j ws). message u \<noteq> message v"
      by (auto simp: in_set_enumerate_eq)
    from e pw qv have m: "message w = message v" by simp
    have "\<not> i < j"
    proof
      assume "i < j"
      with i j have "w \<in> set (take j ws)" by (auto simp: in_set_conv_nth)
      with j m show False by auto
    qed
    moreover have "\<not> j < i"
    proof
      assume "j < i"
      with i j have "v \<in> set (take i ws)" by (auto simp: in_set_conv_nth)
      with i m show False by auto
    qed
    ultimately have "i = j" by simp
    with i j pw qv show "p = q" by simp
  qed
  have "distinct (map (message \<circ> snd) ?xs)"
    using d inj by (simp add: distinct_map)
  then show ?thesis
    by (simp add: uniqueWarnings_alt)
qed

text \<open>
  C8.  Of the warnings the analyzer generates (\<open>collectWarnings\<close>) it returns, for every
  message, exactly one: no two returned warnings have the same message, every generated
  message is returned, the returned warnings stand in the order in which they were
  generated, and each is the first generated warning with its message.
\<close>

theorem C8_identical_messages_kept_once:
  "distinct (map message (analyzePerformanceWarnings nodeMap)) \<and>
   set (map message (analyzePerformanceWarnings nodeMap)) = set (map message (collectWarnings nodeMap)) \<and>
   subseq (analyzePerformanceWarnings nodeMap) (collectWarnings nodeMap) \<and>
   (\<forall>w\<in>set (analyzePerformanceWarnings nodeMap).
      find (\<lambda>v. message v = message w) (collectWarnings nodeMap) = Some w)"
  unfolding analyzePerformanceWarnings_def
  using uniqueWarnings_distinct uniqueWarnings_messages uniqueWarnings_subseq uniqueWarnings_first
  by blast

lemma messages_differ:
  "nestedLoopMessage \<noteq> broadcastMessage" "broadcastMessage \<noteq> nestedLoopMessage"
  "hashMessage e \<noteq> broadcastMessage" "broadcastMessage \<noteq> hashMessage e"
  "seqScanMessage r \<noteq> broadcastMessage" "broadcastMessage \<noteq> seqScanMessage r"
  by (simp_all add: nestedLoopMessage_def broadcastMessage_def hashMessage_def seqScanMessage_def
      warnSign_def infoSign_def)

lemmas warn_defs = nestedLoopRule_def seqScanRule_def broadcastRule_def hashRule_def
  truthyDetails_def isArray_def nodeWarnings_def collectWarnings_def uniqueWarnings_def
  analyzePerformanceWarnings_def

lemma twin_eval:
  "map nodeId (collectWarnings twin_nested_loops) = [''node0'', ''node1'', ''node1'']"
  "map nodeId (analyzePerformanceWarnings twin_nested_loops) = [''node0'', ''node1'']"
  "map message (analyzePerformanceWarnings twin_nested_loops) = [nestedLoopMessage, broadcastMessage]"
  by (simp_all add: twin_nested_loops_def warn_defs startsWith_def messages_differ Let_def)

text \<open>Two nodes with a nested loop, the second also a broadcast: the second nested-loop
  warning is dropped.\<close>

theorem C8_identical_messages_witness:
  "map nodeId (collectWarnings twin_nested_loops) = [''node0'', ''node1'', ''node1''] \<and>
   map nodeId (analyzePerformanceWarnings twin_nested_loops) = [''node0'', ''node1''] \<and>
   distinct (map message (analyzePerformanceWarnings twin_nested_loops)) \<and>
   subseq (analyzePerformanceWarnings twin_nested_loops) (collectWarnings twin_nested_loops)"
  using C8_identical_messages_kept_once [of twin_nested_loops] twin_eval
  by blast

section \<open>Well-formed warnings\<close>

lemma nestedLoopRule_sound: "w \<in> set (nestedLoopRule nid content) \<Longrightarrow> wellFormed nid content w"
  by (cases "includes_str content ''Nested Loop''") (simp_all add: nestedLoopRule_def wellFormed_def)

lemma seqScanRule_sound: "w \<in> set (seqScanRule nid content) \<Longrightarrow> wellFormed nid content w"
  by (cases "includes_str content ''Seq Scan''"; cases "rowsMatch content")
     (simp_all add: seqScanRule_def wellFormed_def Let_def split: if_splits)

lemma broadcastRule_sound: "w \<in> set (broadcastRule nid content) \<Longrightarrow> wellFormed nid content w"
  by (cases "includes_str content ''DS_BCAST''") (simp_all add: broadcastRule_def wellFormed_def)

lemma hashRule_sound: "w \<in> set (hashRule nid content e) \<Longrightarrow> wellFormed nid content w"
  by (cases "includes_str content ''Hash'' \<and> jgt e (Fin 50)") (simp_all add: hashRule_def wellFormed_def)

lemma nodeWarnings_sound:
  assumes "w \<in> set (nodeWarnings nid node)"
  shows "\<not> skipped node \<and> (\<exists>content rest e. node = Obj (Arr (content # rest)) e \<and> wellFormed nid content w)"
proof -
  from assms have ns: "\<not> skipped node"
    by (auto simp: nodeWarnings_def split: if_splits)
  with assms obtain content rest e where node: "node = Obj (Arr (content # rest)) e"
    and w: "w \<in> set (nestedLoopRule nid content @ seqScanRule nid content
                  @ broadcastRule nid content @ hashRule nid content e)"
    by (auto simp: nodeWarnings_def split: if_splits jsnode.splits jsdetails.splits list.splits)
  from w have "wellFormed nid content w"
    using nestedLoopRule_sound seqScanRule_sound broadcastRule_sound hashRule_sound
    by auto
  with ns node show ?thesis by blast
qed

lemma collectWarnings_skip:
  "collectWarnings (filter (\<lambda>(nid, node). \<not> skipped node) m) = collectWarnings m"
  by (induction m) (auto simp: collectWarnings_def nodeWarnings_def)

lemma analyze_subset: "set (analyzePerformanceWarnings m) \<subseteq> set (collectWarnings m)"
  by (auto simp: analyzePerformanceWarnings_def uniqueWarnings_mem)

text \<open>
  C10.  Every warning the analyzer returns carries the key of an entry of the node map
  whose value has a non-empty array of details; its type is \<^verbatim>\<open>warning\<close> or \<^verbatim>\<open>info\<close>, its
  severity \<^verbatim>\<open>high\<close> or \<^verbatim>\<open>medium\<close>; a warning of type \<^verbatim>\<open>info\<close> has the broadcast message and
  its node's first detail line contains \<^verbatim>\<open>DS_BCAST\<close>.  The entries that the safety check
  skips (a null node, missing details, details that are no array, an empty array) add
  nothing: without them the result is the same.
\<close>

theorem C10_warnings_well_formed:
  "(\<forall>w\<in>set (analyzePerformanceWarnings nodeMap).
      nodeId w \<in> fst ` set nodeMap \<and>
      (wtype w = ''warning'' \<or> wtype w = ''info'') \<and>
      (severity w = ''high'' \<or> severity w = ''medium'') \<and>
      (\<exists>content rest e. (nodeId w, Obj (Arr (content # rest)) e) \<in> set nodeMap \<and>
         (wtype w = ''info'' \<longrightarrow> includes_str content ''DS_BCAST'' \<and> message w = broadcastMessage))) \<and>
   analyzePerformanceWarnings (filter (\<lambda>(nid, node). \<not> skipped node) nodeMap)
     = analyzePerformanceWarnings nodeMap \<and>
   skipped Nullish \<and> skipped (Obj Undefined e) \<and> skipped (Obj (Str t) e) \<and> skipped (Obj (Arr []) e)"
proof -
  have a: "\<forall>w\<in>set (analyzePerformanceWarnings nodeMap).
      nodeId w \<in> fst ` set nodeMap \<and>
      (wtype w = ''warning'' \<or> wtype w = ''info'') \<and>
      (severity w = ''high'' \<or> severity w = ''medium'') \<and>
      (\<exists>content rest e. (nodeId w, Obj (Arr (content # rest)) e) \<in> set nodeMap \<and>
         (wtype w = ''info'' \<longrightarrow> includes_str content ''DS_BCAST'' \<and> message w = broadcastMessage))"
  proof
    fix w assume "w \<in> set (analyzePerformanceWarnings nodeMap)"
    with analyze_subset have "w \<in> set (collectWarnings nodeMap)" by blast
    then obtain nid node where mem: "(nid, node) \<in> set nodeMap" and w: "w \<in> set (nodeWarnings nid node)"
      by (auto simp: collectWarnings_def)
    from nodeWarnings_sound [OF w] mem
    have "\<exists>content rest e. (nid, Obj (Arr (content # rest)) e) \<in> set nodeMap \<and> wellFormed nid content w"
      by blast
    then show "nodeId w \<in> fst ` set nodeMap \<and>
      (wtype w = ''warning'' \<or> wtype w = ''info'') \<and>
      (severity w = ''high'' \<or> severity w = ''medium'') \<and>
      (\<exists>content rest e. (nodeId w, Obj (Arr (content # rest)) e) \<in> set nodeMap \<and>
         (wtype w = ''info'' \<longrightarrow> includes_str content ''DS_BCAST'' \<and> message w = broadcastMessage))"
      unfolding wellFormed_def by force
  qed
  have b: "analyzePerformanceWarnings (filter (\<lambda>(nid, node). \<not> skipped node) nodeMap)
     = analyzePerformanceWarnings nodeMap"
    by (simp add: analyzePerformanceWarnings_def collectWarnings_skip)
  have c: "skipped Nullish \<and> skipped (Obj Undefined e) \<and> skipped (Obj (Str t) e) \<and> skipped (Obj (Arr []) e)"
    by (simp add: truthyDetails_def isArray_def)
  from a b c show ?thesis by blast
qed

lemma mixed_eval:
  "map (\<lambda>w. (nodeId w, wtype w, severity w)) (analyzePerformanceWarnings mixed_node_map)
     = [(''e'', ''info'', ''medium''), (''e'', ''warning'', ''medium'')]"
  by (simp add: mixed_node_map_def warn_defs startsWith_def messages_differ num_defs Let_def)

theorem C10_warnings_well_formed_witness:
  "map (\<lambda>w. (nodeId w, wtype w, severity w)) (analyzePerformanceWarnings mixed_node_map)
     = [(''e'', ''info'', ''medium''), (''e'', ''warning'', ''medium'')] \<and>
   analyzePerformanceWarnings (filter (\<lambda>(nid, node). \<not> skipped node) mixed_node_map)
     = analyzePerformanceWarnings mixed_node_map \<and>
   analyzePerformanceWarnings (take 4 mixed_node_map) = []"
proof -
  have "analyzePerformanceWarnings (take 4 mixed_node_map) = []"
    by (simp add: mixed_node_map_def warn_defs)
  with C10_warnings_well_formed [of mixed_node_map] mixed_eval
  show ?thesis by blast
qed

section \<open>The tree the parser builds\<close>

subsection \<open>Node identifiers are distinct\<close>

lemma digitVal_digitChar: "d < 10 \<Longrightarrow> digitVal (digitChar d) = d"
proof -
  assume "d < 10"
  then have "d = 0 \<or> d = 1 \<or> d = 2 \<or> d = 3 \<or> d = 4 \<or> d = 5 \<or> d = 6 \<or> d = 7 \<or> d = 8 \<or> d = 9"
    by arith
  then show ?thesis
    by (elim disjE) (simp_all add: digitVal_def digitChar_def)
qed

lemma digitsVal_snoc: "digitsVal (ds @ [c]) = 10 * digitsVal ds + digitVal c"
  by (simp add: digitsVal_def)

lemma digitsVal_natToString: "digitsVal (natToString n) = n"
proof (induction n rule: natToString.induct)
  case (1 n)
  show ?case
  proof (cases "n < 10")
    case True
    then show ?thesis
      by (simp add: natToString.simps [of n] digitsVal_def digitVal_digitChar)
  next
    case False
    with 1 have "digitsVal (natToString (n div 10)) = n div 10" by simp
    with False show ?thesis
      by (simp add: natToString.simps [of n] digitsVal_snoc digitVal_digitChar)
  qed
qed

lemma nodeName_inj: "nodeName a = nodeName b \<Longrightarrow> a = b"
proof -
  assume "nodeName a = nodeName b"
  then have "natToString a = natToString b" by (simp add: nodeName_def)
  then have "digitsVal (natToString a) = digitsVal (natToString b)" by simp
  then show ?thesis by (simp add: digitsVal_natToString)
qed

subsection \<open>The nodes of a list of lines\<close>

lemma nodeLinesOf_snoc:
  "nodeLinesOf (ls @ [l]) = nodeLinesOf ls @ (if ls = [] \<or> isArrow l then [l] else [])"
  by (cases ls) simp_all

lemma nodeEntries_snoc:
  "nodeEntries (ls @ [l]) =
     nodeEntries ls @
       (if ls = [] \<or> isArrow l
        then [\<lparr>entryId = nodeName (length (nodeEntries ls)), indentation = lineIndentation l\<rparr>]
        else [])"
  by (simp add: nodeEntries_def nodeLinesOf_snoc enumerate_append_eq)

lemma nodeEntries_ids: "map entryId (nodeEntries ls) = map nodeName [0..<length (nodeEntries ls)]"
proof -
  have "map entryId (nodeEntries ls) = map (nodeName \<circ> fst) (enumerate 0 (nodeLinesOf ls))"
    by (simp add: nodeEntries_def split_beta comp_def)
  also have "\<dots> = map nodeName (map fst (enumerate 0 (nodeLinesOf ls)))"
    by (simp only: map_map)
  also have "\<dots> = map nodeName [0..<length (nodeEntries ls)]"
    by (simp add: nodeEntries_def)
  finally show ?thesis .
qed

lemma fresh_id: "nodeName (length (nodeEntries ls)) \<notin> entryId ` set (nodeEntries ls)"
proof
  assume "nodeName (length (nodeEntries ls)) \<in> entryId ` set (nodeEntries ls)"
  then have "nodeName (length (nodeEntries ls)) \<in> set (map entryId (nodeEntries ls))" by simp
  then have "nodeName (length (nodeEntries ls)) \<in> nodeName ` {0..<length (nodeEntries ls)}"
    by (simp add: nodeEntries_ids)
  then obtain k where "k < length (nodeEntries ls)" "nodeName (length (nodeEntries ls)) = nodeName k"
    by auto
  then show False by (auto dest: nodeName_inj)
qed

subsection \<open>The stack\<close>

lemma popStack_dropWhile: "popStack ind st = dropWhile (\<lambda>e. ind \<le> indentation e) st"
  by (induction st) simp_all

lemma popStack_twice: "d \<le> ind \<Longrightarrow> popStack d (popStack ind st) = popStack d st"
  by (induction st) simp_all

lemma popStack_subset: "set (popStack ind st) \<subseteq> set st"
  by (induction st) auto

lemma parentEntry_mem: "parentEntry older ind = Some p \<Longrightarrow> p \<in> set older"
  by (auto simp: parentEntry_def find_Some_iff)

lemma childrenIn_fresh: "pid \<notin> entryId ` set older \<Longrightarrow> childrenIn pid older = []"
proof (induction older)
  case Nil
  then show ?case by simp
next
  case (Cons e older)
  then have ih: "childrenIn pid older = []" by simp
  show ?case
  proof (cases "parentEntry older (indentation e)")
    case None
    with ih show ?thesis by simp
  next
    case (Some p)
    then have "p \<in> set older" by (rule parentEntry_mem)
    with Cons.prems have "entryId p \<noteq> pid" by auto
    with ih Some show ?thesis by simp
  qed
qed


subsection \<open>What one line does to the state\<close>

lemma parseLine_opens:
  assumes "isArrow l \<or> nodeStack s = []"
  shows "idCounter (parseLine l s) = idCounter s + 1 \<and>
         nodeStack (parseLine l s) =
           \<lparr>entryId = nodeName (idCounter s), indentation = lineIndentation l\<rparr>
             # popStack (lineIndentation l) (nodeStack s) \<and>
         nodeInfos (parseLine l s) =
           AList.update (nodeName (idCounter s)) (newNode l)
             (withChild (popStack (lineIndentation l) (nodeStack s)) (nodeName (idCounter s))
                (nodeInfos s))"
proof (cases "isArrow l")
  case True
  then have a: "startsWith (trim l) ''->''" by (simp add: isArrow_def)
  show ?thesis
  proof (cases "popStack (lineIndentation l) (nodeStack s)")
    case Nil
    with a show ?thesis
      by (simp add: parseLine_def Let_def withChild_def newNode_def isArrow_def)
  next
    case (Cons p rest)
    with a show ?thesis
      by (simp add: parseLine_def Let_def withChild_def newNode_def isArrow_def)
  qed
next
  case False
  with assms have e: "nodeStack s = []" by simp
  from False have a: "\<not> startsWith (trim l) ''->''" by (simp add: isArrow_def)
  from a e show ?thesis
    by (simp add: parseLine_def Let_def withChild_def newNode_def isArrow_def)
qed

lemma parseLine_continues:
  assumes "\<not> isArrow l" and "nodeStack s \<noteq> []"
  shows "idCounter (parseLine l s) = idCounter s \<and>
         nodeStack (parseLine l s) = nodeStack s \<and>
         (nodeInfos (parseLine l s) = nodeInfos s \<or>
          (\<exists>k n n'. map_of (nodeInfos s) k = Some n \<and> children n' = children n \<and>
                     nodeInfos (parseLine l s) = AList.update k n' (nodeInfos s)))"
proof -
  from assms(1) have a: "\<not> startsWith (trim l) ''->''" by (simp add: isArrow_def)
  from assms(2) obtain tp rest where st: "nodeStack s = tp # rest" by (cases "nodeStack s") auto
  show ?thesis
  proof (cases "map_of (nodeInfos s) (entryId tp)")
    case None
    with a st show ?thesis by (simp add: parseLine_def Let_def)
  next
    case (Some n)
    let ?n' = "n\<lparr>details := details n @ [trim l],
                   totalCost := (if jeq (totalCost n) (Fin 0) \<and> jgt (lineCost (trim l)) (Fin 0)
                                 then lineCost (trim l) else totalCost n)\<rparr>"
    from a st Some have "nodeInfos (parseLine l s) = AList.update (entryId tp) ?n' (nodeInfos s)"
      and "idCounter (parseLine l s) = idCounter s" and "nodeStack (parseLine l s) = nodeStack s"
      by (simp_all add: parseLine_def Let_def)
    moreover have "children ?n' = children n" by simp
    ultimately show ?thesis using Some by blast
  qed
qed


subsection \<open>The invariant of the scan\<close>

lemma key_lookup: "k \<in> set (map fst al) \<Longrightarrow> \<exists>v. map_of al k = Some v"
  by (cases "map_of al k") (auto simp: map_of_eq_None_iff)

lemma lookup_key: "map_of al k = Some v \<Longrightarrow> k \<in> set (map fst al)"
  by (auto dest: map_of_SomeD intro: rev_image_eqI)

lemma addChild_keys: "map fst (addChild p c infos) = map fst infos"
proof (cases "map_of infos p")
  case None
  then show ?thesis by (simp add: addChild_def)
next
  case (Some n)
  then have "p \<in> set (map fst infos)" by (rule lookup_key)
  with Some show ?thesis by (simp add: addChild_def update_keys)
qed

lemma withChild_keys: "map fst (withChild st nid infos) = map fst infos"
  by (cases st) (simp_all add: withChild_def addChild_keys)

lemma scanInv_open:
  assumes inv: "scanInv ls s" and opens: "ls = [] \<or> isArrow l"
  shows "scanInv (ls @ [l]) (parseLine l s)"
proof -
  let ?es = "nodeEntries ls"
  let ?ind = "lineIndentation l"
  let ?nid = "nodeName (idCounter s)"
  let ?e = "\<lparr>entryId = ?nid, indentation = ?ind\<rparr>"
  let ?st = "popStack ?ind (nodeStack s)"
  let ?infos1 = "withChild ?st ?nid (nodeInfos s)"
  from inv have cnt: "idCounter s = length ?es"
    and keys: "map fst (nodeInfos s) = map entryId ?es"
    and top: "\<And>d. stackTop (popStack d (nodeStack s)) = parentEntry (rev ?es) d"
    and kids: "\<And>pid n. map_of (nodeInfos s) pid = Some n \<Longrightarrow> children n = childrenIn pid (rev ?es)"
    and empty: "(nodeStack s = []) = (ls = [])"
    and sub: "set (nodeStack s) \<subseteq> set ?es"
    by (simp_all add: scanInv_def)
  from opens empty have "isArrow l \<or> nodeStack s = []" by blast
  from parseLine_opens [OF this]
  have cnt': "idCounter (parseLine l s) = idCounter s + 1"
    and stack': "nodeStack (parseLine l s) = ?e # ?st"
    and infos': "nodeInfos (parseLine l s) = AList.update ?nid (newNode l) ?infos1"
    by simp_all
  from opens cnt have es': "nodeEntries (ls @ [l]) = ?es @ [?e]"
    by (auto simp: nodeEntries_snoc)
  have fresh: "?nid \<notin> entryId ` set ?es"
    using fresh_id [of ls] cnt by simp
  then have fresh_key: "?nid \<notin> set (map fst ?infos1)"
    by (simp add: withChild_keys keys)
  have c1: "idCounter (parseLine l s) = length (nodeEntries (ls @ [l]))"
    by (simp add: cnt' es' cnt)
  have c2: "map fst (nodeInfos (parseLine l s)) = map entryId (nodeEntries (ls @ [l]))"
    using fresh_key by (simp add: infos' es' update_keys withChild_keys keys)
  have c3: "stackTop (popStack d (nodeStack (parseLine l s)))
              = parentEntry (rev (nodeEntries (ls @ [l]))) d" for d
  proof (cases "d \<le> ?ind")
    case True
    then have "popStack d (?e # ?st) = popStack d (nodeStack s)"
      by (simp add: popStack_twice)
    with True top [of d] show ?thesis
      by (simp add: stack' es' parentEntry_def)
  next
    case False
    then show ?thesis
      by (simp add: stack' es' parentEntry_def stackTop_def)
  qed
  have par: "parentEntry (rev ?es) ?ind = stackTop ?st"
    by (simp add: top)
  have c4: "children n = childrenIn pid (rev (nodeEntries (ls @ [l])))"
    if look: "map_of (nodeInfos (parseLine l s)) pid = Some n" for pid n
  proof (cases "pid = ?nid")
    case True
    with look have n: "n = newNode l" by (simp add: infos' update_conv')
    from fresh True have "childrenIn pid (rev ?es) = []"
      by (intro childrenIn_fresh) simp
    moreover have "(case parentEntry (rev ?es) ?ind of None \<Rightarrow> []
                     | Some p \<Rightarrow> if entryId p = pid then [entryId ?e] else []) = []"
    proof (cases "parentEntry (rev ?es) ?ind")
      case None
      then show ?thesis by simp
    next
      case (Some p)
      then have "p \<in> set (rev ?es)" by (rule parentEntry_mem)
      then have "entryId p \<in> entryId ` set ?es" by simp
      with fresh True have "entryId p \<noteq> pid" by auto
      with Some show ?thesis by simp
    qed
    ultimately show ?thesis
      by (simp add: es' n newNode_def)
  next
    case False
    with look have look1: "map_of ?infos1 pid = Some n" by (simp add: infos' update_conv')
    show ?thesis
    proof (cases ?st)
      case Nil
      with look1 have "map_of (nodeInfos s) pid = Some n" by (simp add: withChild_def)
      then have "children n = childrenIn pid (rev ?es)" by (rule kids)
      moreover from Nil par have "parentEntry (rev ?es) ?ind = None" by (simp add: stackTop_def)
      ultimately show ?thesis by (simp add: es')
    next
      case (Cons p rest)
      with par have pe: "parentEntry (rev ?es) ?ind = Some p" by (simp add: stackTop_def)
      from Cons have "p \<in> set ?st" by simp
      with popStack_subset sub have "p \<in> set ?es" by blast
      then have "entryId p \<in> set (map fst (nodeInfos s))" by (simp add: keys)
      then have "\<exists>pn. map_of (nodeInfos s) (entryId p) = Some pn" by (rule key_lookup)
      then obtain pn where pn: "map_of (nodeInfos s) (entryId p) = Some pn" ..
      with Cons have i1: "?infos1 = AList.update (entryId p) (pn\<lparr>children := children pn @ [?nid]\<rparr>)
                                     (nodeInfos s)"
        by (simp add: withChild_def addChild_def)
      show ?thesis
      proof (cases "pid = entryId p")
        case True
        with look1 i1 have "n = pn\<lparr>children := children pn @ [?nid]\<rparr>"
          by (simp add: update_conv')
        moreover from pn have "children pn = childrenIn (entryId p) (rev ?es)" by (rule kids)
        ultimately show ?thesis using True pe by (simp add: es')
      next
        case False
        with look1 i1 have "map_of (nodeInfos s) pid = Some n" by (simp add: update_conv')
        then have "children n = childrenIn pid (rev ?es)" by (rule kids)
        with False pe show ?thesis by (auto simp: es')
      qed
    qed
  qed
  have c5: "(nodeStack (parseLine l s) = []) = (ls @ [l] = [])"
    by (simp add: stack')
  have c6: "set (nodeStack (parseLine l s)) \<subseteq> set (nodeEntries (ls @ [l]))"
    using popStack_subset [of ?ind "nodeStack s"] sub by (auto simp: stack' es')
  from c1 c2 c3 c4 c5 c6 show ?thesis
    unfolding scanInv_def by blast
qed

lemma scanInv_continue:
  assumes inv: "scanInv ls s" and cont: "ls \<noteq> []" "\<not> isArrow l"
  shows "scanInv (ls @ [l]) (parseLine l s)"
proof -
  let ?es = "nodeEntries ls"
  from inv have cnt: "idCounter s = length ?es"
    and keys: "map fst (nodeInfos s) = map entryId ?es"
    and top: "\<And>d. stackTop (popStack d (nodeStack s)) = parentEntry (rev ?es) d"
    and kids: "\<And>pid n. map_of (nodeInfos s) pid = Some n \<Longrightarrow> children n = childrenIn pid (rev ?es)"
    and empty: "(nodeStack s = []) = (ls = [])"
    and sub: "set (nodeStack s) \<subseteq> set ?es"
    by (simp_all add: scanInv_def)
  from cont have es': "nodeEntries (ls @ [l]) = ?es" by (simp add: nodeEntries_snoc)
  from cont empty have "nodeStack s \<noteq> []" by simp
  from parseLine_continues [OF cont(2) this]
  have cnt': "idCounter (parseLine l s) = idCounter s"
    and stack': "nodeStack (parseLine l s) = nodeStack s"
    and infos': "nodeInfos (parseLine l s) = nodeInfos s \<or>
          (\<exists>k n n'. map_of (nodeInfos s) k = Some n \<and> children n' = children n \<and>
                     nodeInfos (parseLine l s) = AList.update k n' (nodeInfos s))"
    by simp_all
  have c2: "map fst (nodeInfos (parseLine l s)) = map entryId ?es"
    using infos' keys by (auto simp: update_keys dest: lookup_key)
  have c4: "children n = childrenIn pid (rev ?es)"
    if look: "map_of (nodeInfos (parseLine l s)) pid = Some n" for pid n
  proof -
    from infos' show ?thesis
    proof
      assume "nodeInfos (parseLine l s) = nodeInfos s"
      with look show ?thesis by (simp add: kids)
    next
      assume "\<exists>k n n'. map_of (nodeInfos s) k = Some n \<and> children n' = children n \<and>
                     nodeInfos (parseLine l s) = AList.update k n' (nodeInfos s)"
      then obtain k m m' where m: "map_of (nodeInfos s) k = Some m" "children m' = children m"
          and u: "nodeInfos (parseLine l s) = AList.update k m' (nodeInfos s)"
        by blast
      show ?thesis
      proof (cases "pid = k")
        case True
        with look u have "n = m'" by (simp add: update_conv')
        with m True show ?thesis by (simp add: kids)
      next
        case False
        with look u have "map_of (nodeInfos s) pid = Some n" by (simp add: update_conv')
        then show ?thesis by (rule kids)
      qed
    qed
  qed
  from cnt cnt' c2 top c4 empty sub cont(1) show ?thesis
    unfolding scanInv_def es' stack' by simp
qed

lemma scanInv_step: "scanInv ls s \<Longrightarrow> scanInv (ls @ [l]) (parseLine l s)"
  by (cases "ls = [] \<or> isArrow l") (auto intro: scanInv_open scanInv_continue)

lemma scanInv_initial: "scanInv [] initialState"
  by (simp add: scanInv_def initialState_def nodeEntries_def parentEntry_def stackTop_def)

lemma scanLines_snoc: "scanLines (ls @ [l]) s = parseLine l (scanLines ls s)"
  by (simp add: scanLines_def)

lemma scanInv_scan: "scanInv ls (scanLines ls initialState)"
proof (induction ls rule: rev_induct)
  case Nil
  then show ?case by (simp add: scanLines_def scanInv_initial)
next
  case (snoc l ls)
  then show ?case by (simp add: scanLines_snoc scanInv_step)
qed


lemmas tree_defs = isArrow_def nodeEntries_def parentEntry_def specChildren_def claimedChildren_def
  childrenOf_def

text \<open>
  C4, amended.  The node lines of a text are its first line and every later child line.
  The parent of a node is the nearest earlier node of strictly smaller indentation, and a
  node's children are exactly the nodes whose parent it is, in the order of the text
  (\<open>specChildren\<close>).  The keys of the node map are the identifiers of the node lines.
  The parser reaches this by popping the stack while the indentation of its top is at
  least that of the line: what the pop leaves on top is that nearest earlier node.
\<close>

theorem C4_children_by_nearest_smaller_indentation:
  "(\<forall>pid n. map_of (nodeInfos (scanLines (planLines text) initialState)) pid = Some n \<longrightarrow>
              children n = specChildren (planLines text) pid) \<and>
   map fst (nodeInfos (scanLines (planLines text) initialState))
     = map entryId (nodeEntries (planLines text)) \<and>
   (\<forall>d. stackTop (popStack d (nodeStack (scanLines (planLines text) initialState)))
          = parentEntry (rev (nodeEntries (planLines text))) d) \<and>
   popStack ind st = dropWhile (\<lambda>e. ind \<le> indentation e) st"
  using scanInv_scan [of "planLines text"] popStack_dropWhile [of ind st]
  unfolding scanInv_def specChildren_def by blast

lemma nested_lines: "planLines nested_plan = [''R'', ''  -> A'', ''    -> B'']"
  by (simp add: nested_plan_def newline_def planLines_def trim_def isSpace_def)

lemma nested_infos:
  "nodeInfos (scanLines [''R'', ''  -> A'', ''    -> B''] initialState) =
     [(''node0'', \<lparr>details = [''R''], totalCost = Fin 0, children = [''node1'']\<rparr>),
      (''node1'', \<lparr>details = [''-> A''], totalCost = Fin 0, children = [''node2'']\<rparr>),
      (''node2'', \<lparr>details = [''-> B''], totalCost = Fin 0, children = []\<rparr>)]"
  by (simp add: str_defs num_defs parse_defs)

text \<open>
  C4 as stated fails: in the three-line plan below the line of \<^verbatim>\<open>B\<close> follows the root, is a
  child line and is indented more than the root, with no line of smaller or equal
  indentation between; by the words of the claim it is a child of the root.  The parser
  makes it a child of \<^verbatim>\<open>A\<close>, and the root has the one child \<^verbatim>\<open>A\<close>.
\<close>

theorem C4_grandchild_counterexample:
  "claimedChildren (planLines nested_plan) 0 = [''node1'', ''node2''] \<and>
   childrenOf (nodeInfos (scanLines (planLines nested_plan) initialState)) ''node0''
     = Some [''node1'']"
  unfolding nested_lines nested_infos
  by (simp add: tree_defs str_defs lineIndentation_def nodeName_def)

lemma sibling_lines: "planLines sibling_plan = [''R'', ''  -> A'', ''Filter'', ''  -> B'']"
  by (simp add: sibling_plan_def newline_def planLines_def trim_def isSpace_def)

lemma sibling_infos:
  "nodeInfos (scanLines [''R'', ''  -> A'', ''Filter'', ''  -> B''] initialState) =
     [(''node0'', \<lparr>details = [''R''], totalCost = Fin 0, children = [''node1'', ''node2'']\<rparr>),
      (''node1'', \<lparr>details = [''-> A'', ''Filter''], totalCost = Fin 0, children = []\<rparr>),
      (''node2'', \<lparr>details = [''-> B''], totalCost = Fin 0, children = []\<rparr>)]"
  by (simp add: str_defs num_defs parse_defs)

text \<open>
  A plan whose third line continues the node \<^verbatim>\<open>A\<close> at the indentation of the root: the
  root has both child lines as children, although a line of the root's indentation
  stands between them.
\<close>

theorem C4_children_witness:
  "childrenOf (nodeInfos (scanLines (planLines sibling_plan) initialState)) ''node0''
     = Some (specChildren (planLines sibling_plan) ''node0'') \<and>
   specChildren (planLines sibling_plan) ''node0'' = [''node1'', ''node2''] \<and>
   claimedChildren (planLines sibling_plan) 0 = [''node1'']"
proof -
  let ?infos = "nodeInfos (scanLines (planLines sibling_plan) initialState)"
  let ?n = "\<lparr>details = [''R''], totalCost = Fin 0, children = [''node1'', ''node2'']\<rparr>"
  have look: "map_of ?infos ''node0'' = Some ?n"
    unfolding sibling_lines sibling_infos by simp
  from C4_children_by_nearest_smaller_indentation [of sibling_plan]
  have "\<forall>pid n. map_of ?infos pid = Some n \<longrightarrow> children n = specChildren (planLines sibling_plan) pid"
    by blast
  with look have "children ?n = specChildren (planLines sibling_plan) ''node0''" by blast
  then have a: "specChildren (planLines sibling_plan) ''node0'' = [''node1'', ''node2'']" by simp
  with look have b: "childrenOf ?infos ''node0'' = Some (specChildren (planLines sibling_plan) ''node0'')"
    by (simp add: childrenOf_def)
  have c: "claimedChildren (planLines sibling_plan) 0 = [''node1'']"
    unfolding sibling_lines
    by (simp add: tree_defs str_defs lineIndentation_def nodeName_def)
  from a b c show ?thesis by blast
qed

section \<open>Diffing a plan against itself\<close>



























section \<open>Exclusive costs\<close>

lemma nan_cost_infos:
  "nodeInfos (scanLines (planLines nan_cost_plan) initialState) =
     [(''node0'', \<lparr>details = [nan_cost_plan], totalCost = NaN, children = []\<rparr>)]"
  by (simp add: nan_cost_plan_def str_defs num_defs parse_defs)

text \<open>
  C3, the program against the claim.  In the one-line plan \<^verbatim>\<open>cost=1\ab.\<close> the
  second number of the annotation is a lone dot, which \<^verbatim>\<open>[\d.]+\<close> matches and
  \<^verbatim>\<open>parseFloat\<close> reads as NaN.  The node's inclusive cost is NaN, and so is its exclusive
  cost: \<^verbatim>\<open>NaN < 0\<close> is false, so the clamp leaves it.  NaN is neither \<open>\<ge> 0\<close> nor \<open>\<le>\<close> the
  inclusive cost.
\<close>

theorem C3_nan_cost_not_clamped:
  "attributeCosts (nodeInfos (scanLines (planLines nan_cost_plan) initialState)) =
     [(''node0'', \<lparr>details = [nan_cost_plan], totalCost = NaN, children = [],
                    exclusiveCost = NaN\<rparr>)] \<and>
   \<not> jge NaN (Fin 0) \<and> \<not> jle NaN NaN"
  unfolding nan_cost_infos
  by (simp add: attributeCosts_def exclusiveOf_def childrenTotalCost_def jsub_def jge_def jle_def)

text \<open>
  The sum over the children does guard against such a cost, with
  \<^verbatim>\<open>nodeInfos[childId]?.totalCost || 0\<close>: below a parent of cost 5, the same annotation
  counts as 0 in the parent's sum, and the parent's exclusive cost is 5.  Only the node's
  own cost is used as it was read.
\<close>

lemma nan_child_infos:
  "nodeInfos (scanLines (planLines nan_child_plan) initialState) =
     [(''node0'', \<lparr>details = [''Join cost=1'' @ [backslash] @ ''ab5''], totalCost = Fin 5,
                    children = [''node1'']\<rparr>),
      (''node1'', \<lparr>details = [''-> Scan cost=1'' @ [backslash] @ ''ab.''], totalCost = NaN,
                    children = []\<rparr>)]"
  by (simp add: nan_child_plan_def newline_def str_defs num_defs parse_defs)

lemma nan_child_counts_as_zero:
  "map (\<lambda>(nid, n). (nid, totalCost n, exclusiveCost n))
       (attributeCosts (nodeInfos (scanLines (planLines nan_child_plan) initialState)))
     = [(''node0'', Fin 5, Fin 5), (''node1'', NaN, NaN)]"
  unfolding nan_child_infos
  by (simp add: attributeCosts_def exclusiveOf_def childrenTotalCost_def childCost_def num_defs)

end
